theory Spec2Isabelle
  imports Main "HOL-Library.Word"
begin

section \<open>BLPgas::Send: sender-side tag matching over a table of pending transfers\<close>

text \<open>
  The development embeds \<^verbatim>\<open>Src/C_BaseLib/BLPgas.cpp\<close>: the file-local multimap
  \<^verbatim>\<open>pgas_send_info_map\<close> and the function \<^verbatim>\<open>BLPgas::Send\<close>, which either stores
  a half-known transfer or completes a stored one, fires the one-sided copy, bumps the
  sender's counter and erases the entry.
\<close>

subsection \<open>Data\<close>

type_synonym rank_t = "32 word"
type_synonym addr = "64 word"
type_synonym size_t = "64 word"
type_synonym cint = "32 word"

text \<open>A raw C++ pointer is its address; \<^verbatim>\<open>NULL\<close> is address zero.\<close>

definition NULL :: addr where
  "NULL = 0"

text \<open>
  Modelled from the spec: \<^verbatim>\<open>upcxx::global_ptr<void>\<close> is declared by the UPC++ runtime,
  not in this file. The file uses two things of it: \<^verbatim>\<open>where()\<close>, the rank owning the
  address, and the comparison with \<^verbatim>\<open>NULL\<close>. The spec speaks of an address that is
  "null until the half arrives"; a global pointer is modelled as a rank and a raw address,
  and it is null when the raw address is, whatever the rank (a sender names the receiving
  rank with a null address on that rank).
\<close>

record global_ptr =
  where_rank :: rank_t
  raw_ptr :: addr

definition is_NULL :: "global_ptr \<Rightarrow> bool" where
  "is_NULL p = (raw_ptr p = NULL)"

text \<open>
  \<^verbatim>\<open>BLPgas::SendInfo\<close>, with its fields in the order of the aggregate initialiser
  \<^verbatim>\<open>SendInfo send_info {src, dst, nbytes, SeqNum, signal_event, done_event, send_counter}\<close>.
  The two events and the counter are raw pointers.
\<close>

record SendInfo =
  src_ptr :: global_ptr
  dst_ptr :: global_ptr
  nbytes :: size_t
  SeqNum :: cint
  signal_event :: addr
  done_event :: addr
  send_counter :: addr

text \<open>
  The multimap from rank to \<^verbatim>\<open>SendInfo\<close> is an association list that keeps duplicates:
  \<^verbatim>\<open>equal_range(k)\<close> is the entries with key \<open>k\<close> in list order, and \<^verbatim>\<open>insert\<close> adds
  the new entry behind the entries already there. The order inside a range matters only
  when two entries of one key carry the same sequence number, which the tables built by
  the function never do (\<open>no_dup\<close> below).
\<close>

type_synonym pgas_send_info_map_t = "(rank_t \<times> SendInfo) list"

text \<open>
  What the function does to the outside world, in program order: the call of the copy
  primitive \<^verbatim>\<open>async_copy_and_signal(src, dst, nbytes, signal_event, done_event)\<close>, the
  increment through the counter pointer, and the insertions and erasures on the table.
\<close>

datatype event =
    AsyncCopyAndSignal global_ptr global_ptr size_t addr addr
  | CounterIncr addr
  | MapInsert rank_t SendInfo
  | MapErase rank_t SendInfo

record pgas_state =
  pgas_send_info_map :: pgas_send_info_map_t
  memory :: "addr \<Rightarrow> cint"
  trace :: "event list"

text \<open>
  An assertion that fails aborts the process. The three assertion sites of the function
  are named after the spec's error taxonomy: the size comparison (line 79), the test that
  the stored destination is still null when the stored source is not (line 97), and
  \<^verbatim>\<open>send_info.check()\<close> (line 106). Incrementing through a null counter pointer (line
  114) is a crash of its own. The error carries the state at the point of the abort.
\<close>

datatype error = SizeMismatch | LookupInconsistency | DuplicateRole | NullCounter

type_synonym result = "(error \<times> pgas_state) + pgas_state"

subsection \<open>The matching loop\<close>

text \<open>
  The loop over \<^verbatim>\<open>equal_range(dst.where())\<close> that compares \<^verbatim>\<open>SeqNum\<close>: the position
  of the first entry stored under key \<open>k\<close> whose sequence number is \<open>s\<close>.
\<close>

fun find_SeqNum :: "rank_t \<Rightarrow> cint \<Rightarrow> pgas_send_info_map_t \<Rightarrow> nat option" where
  "find_SeqNum k s [] = None"
| "find_SeqNum k s (e # es) =
     (if fst e = k \<and> s = SeqNum (snd e) then Some 0
      else map_option Suc (find_SeqNum k s es))"

definition erase :: "nat \<Rightarrow> 'a list \<Rightarrow> 'a list" where
  "erase i xs = take i xs @ drop (Suc i) xs"

text \<open>
  The tail of the match branch, lines 106 to 117, for the entry at position \<open>i\<close> and its
  completed descriptor \<open>si\<close>. \<^verbatim>\<open>send_info\<close> is a reference into the table, so the
  assignments of lines 88 to 90 (or 98 and 99) have written the table entry itself: that
  write is the first step here, and the completed descriptor stays in the table until the
  erase of line 116. \<^verbatim>\<open>SendInfo::check\<close> is declared outside this file and is the
  parameter \<open>chk\<close>. The counter is a C \<^verbatim>\<open>int\<close>: the increment is the one of 32-bit words.
\<close>

definition fire :: "(SendInfo \<Rightarrow> bool) \<Rightarrow> pgas_state \<Rightarrow> nat \<Rightarrow> SendInfo \<Rightarrow> result" where
  "fire chk st i si =
     (let k = fst (pgas_send_info_map st ! i);
          st1 = st\<lparr>pgas_send_info_map := (pgas_send_info_map st)[i := (k, si)]\<rparr>
      in if \<not> chk si then Inl (DuplicateRole, st1)
         else
           let st2 = st1\<lparr>trace := trace st1 @
                       [AsyncCopyAndSignal (src_ptr si) (dst_ptr si) (nbytes si)
                          (signal_event si) (done_event si)]\<rparr>
           in if send_counter si = NULL then Inl (NullCounter, st2)
              else
                let c = send_counter si;
                    st3 = st2\<lparr>memory := (memory st2)(c := memory st2 c + 1),
                              trace := trace st2 @ [CounterIncr c]\<rparr>
                in Inr (st3\<lparr>pgas_send_info_map := erase i (pgas_send_info_map st3),
                             trace := trace st3 @ [MapErase k si]\<rparr>))"

text \<open>\<^verbatim>\<open>BLPgas::Send\<close>, lines 50 to 125.\<close>

definition Send ::
  "(SendInfo \<Rightarrow> bool) \<Rightarrow> pgas_state \<Rightarrow> global_ptr \<Rightarrow> global_ptr \<Rightarrow> size_t \<Rightarrow> cint \<Rightarrow>
     addr \<Rightarrow> addr \<Rightarrow> addr \<Rightarrow> result" where
  "Send chk st src dst nb sn sig_ev done_ev counter =
     (case find_SeqNum (where_rank dst) sn (pgas_send_info_map st) of
        Some i \<Rightarrow>
          let send_info = snd (pgas_send_info_map st ! i)
          in if nb \<noteq> nbytes send_info then Inl (SizeMismatch, st)
             else if is_NULL (src_ptr send_info) then
               fire chk st i
                 (send_info\<lparr>src_ptr := src, done_event := done_ev, send_counter := counter\<rparr>)
             else if \<not> is_NULL (dst_ptr send_info) then Inl (LookupInconsistency, st)
             else
               fire chk st i (send_info\<lparr>dst_ptr := dst, signal_event := sig_ev\<rparr>)
      | None \<Rightarrow>
          let send_info = \<lparr>src_ptr = src, dst_ptr = dst, nbytes = nb, SeqNum = sn,
                signal_event = sig_ev, done_event = done_ev, send_counter = counter\<rparr>
          in Inr (st\<lparr>pgas_send_info_map := pgas_send_info_map st @ [(where_rank dst, send_info)],
                      trace := trace st @ [MapInsert (where_rank dst) send_info]\<rparr>))"

subsection \<open>Sequences of calls\<close>

text \<open>The seven arguments of one call of \<^verbatim>\<open>BLPgas::Send\<close>.\<close>

record call =
  arg_src :: global_ptr
  arg_dst :: global_ptr
  arg_nbytes :: size_t
  arg_SeqNum :: cint
  arg_signal_event :: addr
  arg_done_event :: addr
  arg_send_counter :: addr

definition Send_call :: "(SendInfo \<Rightarrow> bool) \<Rightarrow> pgas_state \<Rightarrow> call \<Rightarrow> result" where
  "Send_call chk st c =
     Send chk st (arg_src c) (arg_dst c) (arg_nbytes c) (arg_SeqNum c)
       (arg_signal_event c) (arg_done_event c) (arg_send_counter c)"

text \<open>Calls made one after the other; an abort ends the process, so the rest never runs.\<close>

fun run :: "(SendInfo \<Rightarrow> bool) \<Rightarrow> pgas_state \<Rightarrow> call list \<Rightarrow> result" where
  "run chk st [] = Inr st"
| "run chk st (c # cs) =
     (case Send_call chk st c of
        Inl e \<Rightarrow> Inl e
      | Inr st' \<Rightarrow> run chk st' cs)"

fun state_of :: "result \<Rightarrow> pgas_state" where
  "state_of (Inl (e, st)) = st"
| "state_of (Inr st) = st"

text \<open>The table as the program starts: empty. \<open>base m\<close> is that state over memory \<open>m\<close>.\<close>

definition base :: "(addr \<Rightarrow> cint) \<Rightarrow> pgas_state" where
  "base m = \<lparr>pgas_send_info_map = [], memory = m, trace = []\<rparr>"

definition init_state :: pgas_state where
  "init_state = base (\<lambda>_. 0)"

subsection \<open>Vocabulary of the properties\<close>

text \<open>A descriptor for peer \<open>k\<close> and sequence number \<open>s\<close> is stored in the table.\<close>

definition has_entry :: "rank_t \<Rightarrow> cint \<Rightarrow> pgas_send_info_map_t \<Rightarrow> bool" where
  "has_entry k s tbl = (\<exists>e \<in> set tbl. fst e = k \<and> SeqNum (snd e) = s)"

text \<open>No two stored descriptors share peer and sequence number.\<close>

definition no_dup :: "pgas_send_info_map_t \<Rightarrow> bool" where
  "no_dup tbl = distinct (map (\<lambda>e. (fst e, SeqNum (snd e))) tbl)"

text \<open>Every descriptor is stored under the rank of its own destination address.\<close>

definition keyed_by_dst :: "pgas_send_info_map_t \<Rightarrow> bool" where
  "keyed_by_dst tbl = list_all (\<lambda>e. fst e = where_rank (dst_ptr (snd e))) tbl"

fun is_copy :: "event \<Rightarrow> bool" where
  "is_copy (AsyncCopyAndSignal s d n se de) = True"
| "is_copy _ = False"

text \<open>The calls of the copy primitive in a trace, in order.\<close>

definition issued_copies :: "event list \<Rightarrow> event list" where
  "issued_copies tr = filter is_copy tr"

text \<open>
  Reading a list of events from its start, a table erase is met before any call of the
  copy primitive.
\<close>

fun erase_precedes_copy :: "event list \<Rightarrow> bool" where
  "erase_precedes_copy [] = False"
| "erase_precedes_copy (MapErase k si # tr) = True"
| "erase_precedes_copy (AsyncCopyAndSignal s d n se de # tr) = False"
| "erase_precedes_copy (CounterIncr c # tr) = erase_precedes_copy tr"
| "erase_precedes_copy (MapInsert k si # tr) = erase_precedes_copy tr"

text \<open>
  Modelled from the spec: \<^verbatim>\<open>SendInfo::check\<close> is declared in \<^verbatim>\<open>BLPgas.H\<close>, which is
  not among the sources. The spec's steps 3b to 3d say what is asserted once the arriving
  half is merged into the stored one: the other address is non-null, and a role that does
  not fill the missing field is fatal. So the check passes when both addresses of the
  completed descriptor are non-null.
\<close>

definition check :: "SendInfo \<Rightarrow> bool" where
  "check si = (\<not> is_NULL (src_ptr si) \<and> \<not> is_NULL (dst_ptr si))"

text \<open>
  A table and a trace put in front of a state: the descriptors of other transfers that are
  already pending, and what happened before.
\<close>

definition framed :: "pgas_send_info_map_t \<Rightarrow> event list \<Rightarrow> pgas_state \<Rightarrow> pgas_state" where
  "framed tbl tr st =
     st\<lparr>pgas_send_info_map := tbl @ pgas_send_info_map st, trace := tr @ trace st\<rparr>"

definition framed_result :: "pgas_send_info_map_t \<Rightarrow> event list \<Rightarrow> result \<Rightarrow> result" where
  "framed_result tbl tr r =
     (case r of Inl (e, st) \<Rightarrow> Inl (e, framed tbl tr st) | Inr st \<Rightarrow> Inr (framed tbl tr st))"

subsection \<open>Buffers and handles of the test scenarios\<close>

text \<open>
  The spec's scenario A: peer 3, tag 7, 1024 bytes. The receive buffer lives on rank 3,
  the send buffer on rank 0; \<open>null_on r\<close> is \<^verbatim>\<open>global_ptr<void>(NULL, r)\<close>.
\<close>

definition null_on :: "rank_t \<Rightarrow> global_ptr" where
  "null_on r = \<lparr>where_rank = r, raw_ptr = NULL\<rparr>"

definition buf_S :: global_ptr where
  "buf_S = \<lparr>where_rank = 0, raw_ptr = 4096\<rparr>"

definition buf_D :: global_ptr where
  "buf_D = \<lparr>where_rank = 3, raw_ptr = 8192\<rparr>"

definition recv_event :: addr where
  "recv_event = 256"

definition send_event :: addr where
  "send_event = 512"

definition counter_C :: addr where
  "counter_C = 768"

text \<open>The destination half and the source half of scenario A, as calls.\<close>

definition dest_half :: "global_ptr \<Rightarrow> size_t \<Rightarrow> cint \<Rightarrow> call" where
  "dest_half D n t =
     \<lparr>arg_src = null_on 0, arg_dst = D, arg_nbytes = n, arg_SeqNum = t,
      arg_signal_event = recv_event, arg_done_event = NULL, arg_send_counter = NULL\<rparr>"

definition source_half :: "global_ptr \<Rightarrow> rank_t \<Rightarrow> size_t \<Rightarrow> cint \<Rightarrow> call" where
  "source_half S r n t =
     \<lparr>arg_src = S, arg_dst = null_on r, arg_nbytes = n, arg_SeqNum = t,
      arg_signal_event = NULL, arg_done_event = send_event, arg_send_counter = counter_C\<rparr>"

definition buf_T :: global_ptr where
  "buf_T = \<lparr>where_rank = 0, raw_ptr = 12288\<rparr>"

definition buf_E :: global_ptr where
  "buf_E = \<lparr>where_rank = 3, raw_ptr = 16384\<rparr>"

text \<open>Scenario A after the destination half, and after the source half has fired it.\<close>

definition pending_A :: pgas_state where
  "pending_A =
     \<lparr>pgas_send_info_map =
        [(3, \<lparr>src_ptr = null_on 0, dst_ptr = buf_D, nbytes = 1024, SeqNum = 7,
           signal_event = recv_event, done_event = NULL, send_counter = NULL\<rparr>)],
      memory = (\<lambda>_. 0),
      trace =
        [MapInsert 3 \<lparr>src_ptr = null_on 0, dst_ptr = buf_D, nbytes = 1024, SeqNum = 7,
           signal_event = recv_event, done_event = NULL, send_counter = NULL\<rparr>]\<rparr>"

definition fired_A :: pgas_state where
  "fired_A =
     \<lparr>pgas_send_info_map = [],
      memory = (\<lambda>_. 0)(counter_C := 1),
      trace =
        [MapInsert 3 \<lparr>src_ptr = null_on 0, dst_ptr = buf_D, nbytes = 1024, SeqNum = 7,
           signal_event = recv_event, done_event = NULL, send_counter = NULL\<rparr>,
         AsyncCopyAndSignal buf_S buf_D 1024 recv_event send_event,
         CounterIncr counter_C,
         MapErase 3 \<lparr>src_ptr = buf_S, dst_ptr = buf_D, nbytes = 1024, SeqNum = 7,
           signal_event = recv_event, done_event = send_event, send_counter = counter_C\<rparr>]\<rparr>"

subsection \<open>Halves of a transfer\<close>

text \<open>
  A call is the destination half of the transfer with peer \<open>p\<close>, tag \<open>t\<close> and byteLength
  \<open>n\<close> when it brings the destination address, on rank \<open>p\<close>, and no source address; it is
  the source half when it brings the source address, names rank \<open>p\<close> with a null
  destination, and brings a counter.
\<close>

definition is_dest_half :: "rank_t \<Rightarrow> cint \<Rightarrow> size_t \<Rightarrow> call \<Rightarrow> bool" where
  "is_dest_half p t n d =
     (is_NULL (arg_src d) \<and> \<not> is_NULL (arg_dst d) \<and> where_rank (arg_dst d) = p \<and>
      arg_SeqNum d = t \<and> arg_nbytes d = n)"

definition is_source_half :: "rank_t \<Rightarrow> cint \<Rightarrow> size_t \<Rightarrow> call \<Rightarrow> bool" where
  "is_source_half p t n s =
     (\<not> is_NULL (arg_src s) \<and> is_NULL (arg_dst s) \<and> where_rank (arg_dst s) = p \<and>
      arg_SeqNum s = t \<and> arg_nbytes s = n \<and> arg_send_counter s \<noteq> NULL)"

text \<open>
  The descriptor that the two halves \<open>d\<close> and \<open>s\<close> complete, and the call of the copy
  primitive that goes with it.
\<close>

definition completed :: "call \<Rightarrow> call \<Rightarrow> SendInfo" where
  "completed d s =
     \<lparr>src_ptr = arg_src s, dst_ptr = arg_dst d, nbytes = arg_nbytes s, SeqNum = arg_SeqNum s,
      signal_event = arg_signal_event d, done_event = arg_done_event s,
      send_counter = arg_send_counter s\<rparr>"

definition fired_copy :: "call \<Rightarrow> call \<Rightarrow> event" where
  "fired_copy d s =
     AsyncCopyAndSignal (arg_src s) (arg_dst d) (arg_nbytes s)
       (arg_signal_event d) (arg_done_event s)"

section \<open>Properties\<close>

subsection \<open>The matching loop and the table operations\<close>

lemma find_SeqNum_None_iff:
  "find_SeqNum k s tbl = None \<longleftrightarrow> \<not> has_entry k s tbl"
  by (induction tbl) (auto simp: has_entry_def)

lemma find_SeqNum_Some:
  "find_SeqNum k s tbl = Some i \<Longrightarrow>
     i < length tbl \<and> fst (tbl ! i) = k \<and> SeqNum (snd (tbl ! i)) = s"
proof (induction tbl arbitrary: i)
  case Nil
  then show ?case by simp
next
  case (Cons e es)
  then show ?case by (auto split: if_splits)
qed

lemma find_SeqNum_append:
  "find_SeqNum k s (xs @ ys) =
     (case find_SeqNum k s xs of
        Some i \<Rightarrow> Some i
      | None \<Rightarrow> map_option (\<lambda>j. length xs + j) (find_SeqNum k s ys))"
proof (induction xs)
  case Nil
  show ?case by (cases "find_SeqNum k s ys") simp_all
next
  case (Cons e es)
  then show ?case
    by (cases "find_SeqNum k s ys") (auto split: option.splits)
qed

lemma find_SeqNum_append_miss:
  "\<not> has_entry k s tbl \<Longrightarrow>
     find_SeqNum k s (tbl @ xs) = map_option (\<lambda>j. length tbl + j) (find_SeqNum k s xs)"
  by (simp add: find_SeqNum_append find_SeqNum_None_iff [symmetric])

lemma list_update_append_right:
  "(xs @ ys)[length xs + j := y] = xs @ ys[j := y]"
  by (simp add: list_update_append)

lemma erase_simps [simp]:
  "erase 0 (x # xs) = xs"
  "erase (Suc i) (x # xs) = x # erase i xs"
  by (simp_all add: erase_def)

lemma erase_update: "erase i (xs[i := x]) = erase i xs"
  by (simp add: erase_def)

lemma erase_append_right: "erase (length xs + j) (xs @ ys) = xs @ erase j ys"
  by (simp add: erase_def)

lemma issued_copies_append [simp]:
  "issued_copies (xs @ ys) = issued_copies xs @ issued_copies ys"
  by (simp add: issued_copies_def)

lemma issued_copies_simps [simp]:
  "issued_copies [] = []"
  "issued_copies (AsyncCopyAndSignal s d n se de # tr) =
     AsyncCopyAndSignal s d n se de # issued_copies tr"
  "issued_copies (CounterIncr c # tr) = issued_copies tr"
  "issued_copies (MapInsert k si # tr) = issued_copies tr"
  "issued_copies (MapErase k si # tr) = issued_copies tr"
  by (simp_all add: issued_copies_def)

text \<open>
  The increment of the counter, read as a signed \<^verbatim>\<open>int\<close>: one more, short of the
  largest value.
\<close>

lemma counter_increment_signed:
  fixes x :: cint
  assumes "sint x < 2147483647"
  shows "sint (x + 1) = sint x + 1"
proof -
  have lo: "- 2147483648 \<le> sint x"
    using sint_ge [of x] by simp
  have "sint (x + 1) = signed_take_bit 31 (sint x + sint (1 :: cint))"
    by (simp add: sint_word_add)
  also have "\<dots> = signed_take_bit 31 (sint x + 1)"
    by simp
  also have "\<dots> = sint x + 1"
    using lo assms by (intro signed_take_bit_int_eq_self) simp_all
  finally show ?thesis .
qed

subsection \<open>One call, case by case\<close>

lemma Send_store:
  assumes "\<not> has_entry (where_rank dst) sn (pgas_send_info_map st)"
  shows "Send chk st src dst nb sn sig_ev done_ev counter =
     Inr \<lparr>pgas_send_info_map = pgas_send_info_map st @
             [(where_rank dst, \<lparr>src_ptr = src, dst_ptr = dst, nbytes = nb, SeqNum = sn,
                signal_event = sig_ev, done_event = done_ev, send_counter = counter\<rparr>)],
          memory = memory st,
          trace = trace st @
             [MapInsert (where_rank dst) \<lparr>src_ptr = src, dst_ptr = dst, nbytes = nb, SeqNum = sn,
                signal_event = sig_ev, done_event = done_ev, send_counter = counter\<rparr>]\<rparr>"
  using assms by (cases st) (simp add: Send_def Let_def find_SeqNum_None_iff [symmetric])

lemma Send_match:
  assumes "find_SeqNum (where_rank dst) sn (pgas_send_info_map st) = Some i"
  shows "Send chk st src dst nb sn sig_ev done_ev counter =
     (if nb \<noteq> nbytes (snd (pgas_send_info_map st ! i)) then Inl (SizeMismatch, st)
      else if is_NULL (src_ptr (snd (pgas_send_info_map st ! i))) then
        fire chk st i
          ((snd (pgas_send_info_map st ! i))
             \<lparr>src_ptr := src, done_event := done_ev, send_counter := counter\<rparr>)
      else if \<not> is_NULL (dst_ptr (snd (pgas_send_info_map st ! i))) then
        Inl (LookupInconsistency, st)
      else
        fire chk st i
          ((snd (pgas_send_info_map st ! i))\<lparr>dst_ptr := dst, signal_event := sig_ev\<rparr>))"
  using assms by (simp add: Send_def Let_def)

lemma fire_ok:
  assumes "chk si" "send_counter si \<noteq> NULL"
  shows "fire chk st i si =
     Inr \<lparr>pgas_send_info_map = erase i (pgas_send_info_map st),
          memory = (memory st)(send_counter si := memory st (send_counter si) + 1),
          trace = trace st @
            [AsyncCopyAndSignal (src_ptr si) (dst_ptr si) (nbytes si)
               (signal_event si) (done_event si),
             CounterIncr (send_counter si),
             MapErase (fst (pgas_send_info_map st ! i)) si]\<rparr>"
  using assms by (cases st) (simp add: fire_def Let_def erase_update)

lemma fire_check_fails:
  assumes "\<not> chk si"
  shows "fire chk st i si =
     Inl (DuplicateRole,
          st\<lparr>pgas_send_info_map :=
               (pgas_send_info_map st)[i := (fst (pgas_send_info_map st ! i), si)]\<rparr>)"
  using assms by (simp add: fire_def Let_def)

subsection \<open>Descriptors of other transfers do not take part\<close>

lemma framed_result_simps [simp]:
  "framed_result tbl tr (Inl (e, st)) = Inl (e, framed tbl tr st)"
  "framed_result tbl tr (Inr st) = Inr (framed tbl tr st)"
  by (simp_all add: framed_result_def)

lemma framed_base: "framed (pgas_send_info_map st) (trace st) (base (memory st)) = st"
  by (cases st) (simp add: framed_def base_def)

lemma fire_framed:
  "fire chk (framed tbl tr st) (length tbl + j) si = framed_result tbl tr (fire chk st j si)"
  by (cases st)
    (simp add: fire_def framed_def Let_def list_update_append_right erase_append_right)

lemma Send_framed:
  assumes "\<not> has_entry (where_rank dst) sn tbl"
  shows "Send chk (framed tbl tr st) src dst nb sn sig_ev done_ev counter =
     framed_result tbl tr (Send chk st src dst nb sn sig_ev done_ev counter)"
proof (cases "find_SeqNum (where_rank dst) sn (pgas_send_info_map st)")
  case None
  then show ?thesis
    using assms
    by (cases st) (simp add: Send_def framed_def Let_def find_SeqNum_append_miss)
next
  case (Some j)
  have nth: "(tbl @ pgas_send_info_map st) ! (length tbl + j) = pgas_send_info_map st ! j"
    by (rule nth_append_length_plus)
  have fnd: "find_SeqNum (where_rank dst) sn (pgas_send_info_map (framed tbl tr st)) =
      Some (length tbl + j)"
    using assms Some by (simp add: framed_def find_SeqNum_append_miss)
  have tblf: "pgas_send_info_map (framed tbl tr st) = tbl @ pgas_send_info_map st"
    by (simp add: framed_def)
  show ?thesis
    by (simp add: Send_match [OF fnd] Send_match [OF Some] tblf nth fire_framed)
qed

lemma run_framed:
  assumes "\<forall>c \<in> set cs. \<not> has_entry (where_rank (arg_dst c)) (arg_SeqNum c) tbl"
  shows "run chk (framed tbl tr st) cs = framed_result tbl tr (run chk st cs)"
  using assms
proof (induction cs arbitrary: st)
  case Nil
  show ?case by simp
next
  case (Cons c cs)
  then have miss: "\<not> has_entry (where_rank (arg_dst c)) (arg_SeqNum c) tbl"
    and rest: "\<forall>c \<in> set cs. \<not> has_entry (where_rank (arg_dst c)) (arg_SeqNum c) tbl"
    by simp_all
  show ?case
  proof (cases "Send_call chk st c")
    case (Inl e)
    then show ?thesis
      by (cases e) (simp add: Send_call_def Send_framed [OF miss])
  next
    case (Inr st')
    then show ?thesis
      by (simp add: Send_call_def Send_framed [OF miss] Cons.IH [OF rest])
  qed
qed

subsection \<open>A pair of complementary halves, in either order\<close>

lemmas Send_exec = Send_def fire_def Let_def is_NULL_def base_def

lemma base_dst_then_src:
  assumes "is_NULL Sn" "\<not> is_NULL D" "where_rank D = p"
    and "\<not> is_NULL S" "is_NULL Dn" "where_rank Dn = p"
    and "c \<noteq> NULL"
    and "chk \<lparr>src_ptr = S, dst_ptr = D, nbytes = n, SeqNum = t,
               signal_event = se_d, done_event = de_s, send_counter = c\<rparr>"
  shows "Send chk (base m) Sn D n t se_d de_d c_d =
       Inr \<lparr>pgas_send_info_map =
              [(p, \<lparr>src_ptr = Sn, dst_ptr = D, nbytes = n, SeqNum = t,
                 signal_event = se_d, done_event = de_d, send_counter = c_d\<rparr>)],
            memory = m,
            trace =
              [MapInsert p \<lparr>src_ptr = Sn, dst_ptr = D, nbytes = n, SeqNum = t,
                 signal_event = se_d, done_event = de_d, send_counter = c_d\<rparr>]\<rparr> \<and>
     Send chk
       \<lparr>pgas_send_info_map =
              [(p, \<lparr>src_ptr = Sn, dst_ptr = D, nbytes = n, SeqNum = t,
                 signal_event = se_d, done_event = de_d, send_counter = c_d\<rparr>)],
            memory = m,
            trace =
              [MapInsert p \<lparr>src_ptr = Sn, dst_ptr = D, nbytes = n, SeqNum = t,
                 signal_event = se_d, done_event = de_d, send_counter = c_d\<rparr>]\<rparr>
       S Dn n t se_s de_s c =
       Inr \<lparr>pgas_send_info_map = [],
            memory = m(c := m c + 1),
            trace =
              [MapInsert p \<lparr>src_ptr = Sn, dst_ptr = D, nbytes = n, SeqNum = t,
                 signal_event = se_d, done_event = de_d, send_counter = c_d\<rparr>,
               AsyncCopyAndSignal S D n se_d de_s,
               CounterIncr c,
               MapErase p \<lparr>src_ptr = S, dst_ptr = D, nbytes = n, SeqNum = t,
                 signal_event = se_d, done_event = de_s, send_counter = c\<rparr>]\<rparr>"
  using assms by (simp add: Send_exec)

lemma base_src_then_dst:
  assumes "is_NULL Sn" "\<not> is_NULL D" "where_rank D = p"
    and "\<not> is_NULL S" "is_NULL Dn" "where_rank Dn = p"
    and "c \<noteq> NULL"
    and "chk \<lparr>src_ptr = S, dst_ptr = D, nbytes = n, SeqNum = t,
               signal_event = se_d, done_event = de_s, send_counter = c\<rparr>"
  shows "Send chk (base m) S Dn n t se_s de_s c =
       Inr \<lparr>pgas_send_info_map =
              [(p, \<lparr>src_ptr = S, dst_ptr = Dn, nbytes = n, SeqNum = t,
                 signal_event = se_s, done_event = de_s, send_counter = c\<rparr>)],
            memory = m,
            trace =
              [MapInsert p \<lparr>src_ptr = S, dst_ptr = Dn, nbytes = n, SeqNum = t,
                 signal_event = se_s, done_event = de_s, send_counter = c\<rparr>]\<rparr> \<and>
     Send chk
       \<lparr>pgas_send_info_map =
              [(p, \<lparr>src_ptr = S, dst_ptr = Dn, nbytes = n, SeqNum = t,
                 signal_event = se_s, done_event = de_s, send_counter = c\<rparr>)],
            memory = m,
            trace =
              [MapInsert p \<lparr>src_ptr = S, dst_ptr = Dn, nbytes = n, SeqNum = t,
                 signal_event = se_s, done_event = de_s, send_counter = c\<rparr>]\<rparr>
       Sn D n t se_d de_d c_d =
       Inr \<lparr>pgas_send_info_map = [],
            memory = m(c := m c + 1),
            trace =
              [MapInsert p \<lparr>src_ptr = S, dst_ptr = Dn, nbytes = n, SeqNum = t,
                 signal_event = se_s, done_event = de_s, send_counter = c\<rparr>,
               AsyncCopyAndSignal S D n se_d de_s,
               CounterIncr c,
               MapErase p \<lparr>src_ptr = S, dst_ptr = D, nbytes = n, SeqNum = t,
                 signal_event = se_d, done_event = de_s, send_counter = c\<rparr>]\<rparr>"
  using assms by (simp add: Send_exec)

text \<open>
  The same two runs from any state whose table holds no descriptor for the key: the
  destination half stored and then completed by the source half.
\<close>

lemma dst_then_src:
  assumes "\<not> has_entry p t (pgas_send_info_map st)"
    and "is_NULL Sn" "\<not> is_NULL D" "where_rank D = p"
    and "\<not> is_NULL S" "is_NULL Dn" "where_rank Dn = p"
    and "c \<noteq> NULL"
    and "chk \<lparr>src_ptr = S, dst_ptr = D, nbytes = n, SeqNum = t,
               signal_event = se_d, done_event = de_s, send_counter = c\<rparr>"
  shows "\<exists>st1. Send chk st Sn D n t se_d de_d c_d = Inr st1 \<and>
     issued_copies (trace st1) = issued_copies (trace st) \<and>
     Send chk st1 S Dn n t se_s de_s c =
       Inr \<lparr>pgas_send_info_map = pgas_send_info_map st,
            memory = (memory st)(c := memory st c + 1),
            trace = trace st @
              [MapInsert p \<lparr>src_ptr = Sn, dst_ptr = D, nbytes = n, SeqNum = t,
                 signal_event = se_d, done_event = de_d, send_counter = c_d\<rparr>,
               AsyncCopyAndSignal S D n se_d de_s,
               CounterIncr c,
               MapErase p \<lparr>src_ptr = S, dst_ptr = D, nbytes = n, SeqNum = t,
                 signal_event = se_d, done_event = de_s, send_counter = c\<rparr>]\<rparr>"
proof -
  let ?tbl = "pgas_send_info_map st" and ?tr = "trace st"
  have st: "st = framed ?tbl ?tr (base (memory st))"
    by (simp add: framed_base)
  have m1: "\<not> has_entry (where_rank D) t ?tbl" and m2: "\<not> has_entry (where_rank Dn) t ?tbl"
    using assms by simp_all
  note b = base_dst_then_src [where m = "memory st" and de_d = de_d and c_d = c_d and se_s = se_s and chk = chk,
      OF assms(2-9)]
  define sb1 where "sb1 =
      \<lparr>pgas_send_info_map =
              [(p, \<lparr>src_ptr = Sn, dst_ptr = D, nbytes = n, SeqNum = t,
                 signal_event = se_d, done_event = de_d, send_counter = c_d\<rparr>)],
            memory = memory st,
            trace =
              [MapInsert p \<lparr>src_ptr = Sn, dst_ptr = D, nbytes = n, SeqNum = t,
                 signal_event = se_d, done_event = de_d, send_counter = c_d\<rparr>]\<rparr>"
  have "Send chk st Sn D n t se_d de_d c_d =
      framed_result ?tbl ?tr (Send chk (base (memory st)) Sn D n t se_d de_d c_d)"
    using Send_framed [OF m1, of chk ?tr "base (memory st)"] st by simp
  then have first: "Send chk st Sn D n t se_d de_d c_d = Inr (framed ?tbl ?tr sb1)"
    using b by (simp add: sb1_def)
  have "Send chk (framed ?tbl ?tr sb1) S Dn n t se_s de_s c =
      framed_result ?tbl ?tr (Send chk sb1 S Dn n t se_s de_s c)"
    by (rule Send_framed [OF m2])
  then have second: "Send chk (framed ?tbl ?tr sb1) S Dn n t se_s de_s c =
      Inr \<lparr>pgas_send_info_map = pgas_send_info_map st,
            memory = (memory st)(c := memory st c + 1),
            trace = trace st @
              [MapInsert p \<lparr>src_ptr = Sn, dst_ptr = D, nbytes = n, SeqNum = t,
                 signal_event = se_d, done_event = de_d, send_counter = c_d\<rparr>,
               AsyncCopyAndSignal S D n se_d de_s,
               CounterIncr c,
               MapErase p \<lparr>src_ptr = S, dst_ptr = D, nbytes = n, SeqNum = t,
                 signal_event = se_d, done_event = de_s, send_counter = c\<rparr>]\<rparr>"
    using b by (simp add: sb1_def framed_def)
  have "issued_copies (trace (framed ?tbl ?tr sb1)) = issued_copies ?tr"
    by (simp add: sb1_def framed_def)
  with first second show ?thesis by blast
qed

lemma src_then_dst:
  assumes "\<not> has_entry p t (pgas_send_info_map st)"
    and "is_NULL Sn" "\<not> is_NULL D" "where_rank D = p"
    and "\<not> is_NULL S" "is_NULL Dn" "where_rank Dn = p"
    and "c \<noteq> NULL"
    and "chk \<lparr>src_ptr = S, dst_ptr = D, nbytes = n, SeqNum = t,
               signal_event = se_d, done_event = de_s, send_counter = c\<rparr>"
  shows "\<exists>st1. Send chk st S Dn n t se_s de_s c = Inr st1 \<and>
     issued_copies (trace st1) = issued_copies (trace st) \<and>
     Send chk st1 Sn D n t se_d de_d c_d =
       Inr \<lparr>pgas_send_info_map = pgas_send_info_map st,
            memory = (memory st)(c := memory st c + 1),
            trace = trace st @
              [MapInsert p \<lparr>src_ptr = S, dst_ptr = Dn, nbytes = n, SeqNum = t,
                 signal_event = se_s, done_event = de_s, send_counter = c\<rparr>,
               AsyncCopyAndSignal S D n se_d de_s,
               CounterIncr c,
               MapErase p \<lparr>src_ptr = S, dst_ptr = D, nbytes = n, SeqNum = t,
                 signal_event = se_d, done_event = de_s, send_counter = c\<rparr>]\<rparr>"
proof -
  let ?tbl = "pgas_send_info_map st" and ?tr = "trace st"
  have st: "st = framed ?tbl ?tr (base (memory st))"
    by (simp add: framed_base)
  have m1: "\<not> has_entry (where_rank D) t ?tbl" and m2: "\<not> has_entry (where_rank Dn) t ?tbl"
    using assms by simp_all
  note b = base_src_then_dst [where m = "memory st" and de_d = de_d and c_d = c_d and se_s = se_s and chk = chk,
      OF assms(2-9)]
  define sb1 where "sb1 =
      \<lparr>pgas_send_info_map =
              [(p, \<lparr>src_ptr = S, dst_ptr = Dn, nbytes = n, SeqNum = t,
                 signal_event = se_s, done_event = de_s, send_counter = c\<rparr>)],
            memory = memory st,
            trace =
              [MapInsert p \<lparr>src_ptr = S, dst_ptr = Dn, nbytes = n, SeqNum = t,
                 signal_event = se_s, done_event = de_s, send_counter = c\<rparr>]\<rparr>"
  have "Send chk st S Dn n t se_s de_s c =
      framed_result ?tbl ?tr (Send chk (base (memory st)) S Dn n t se_s de_s c)"
    using Send_framed [OF m2, of chk ?tr "base (memory st)"] st by simp
  then have first: "Send chk st S Dn n t se_s de_s c = Inr (framed ?tbl ?tr sb1)"
    using b by (simp add: sb1_def)
  have "Send chk (framed ?tbl ?tr sb1) Sn D n t se_d de_d c_d =
      framed_result ?tbl ?tr (Send chk sb1 Sn D n t se_d de_d c_d)"
    by (rule Send_framed [OF m1])
  then have second: "Send chk (framed ?tbl ?tr sb1) Sn D n t se_d de_d c_d =
      Inr \<lparr>pgas_send_info_map = pgas_send_info_map st,
            memory = (memory st)(c := memory st c + 1),
            trace = trace st @
              [MapInsert p \<lparr>src_ptr = S, dst_ptr = Dn, nbytes = n, SeqNum = t,
                 signal_event = se_s, done_event = de_s, send_counter = c\<rparr>,
               AsyncCopyAndSignal S D n se_d de_s,
               CounterIncr c,
               MapErase p \<lparr>src_ptr = S, dst_ptr = D, nbytes = n, SeqNum = t,
                 signal_event = se_d, done_event = de_s, send_counter = c\<rparr>]\<rparr>"
    using b by (simp add: sb1_def framed_def)
  have "issued_copies (trace (framed ?tbl ?tr sb1)) = issued_copies ?tr"
    by (simp add: sb1_def framed_def)
  with first second show ?thesis by blast
qed

section \<open>The claims\<close>

lemmas scenario_defs = init_state_def base_def null_on_def buf_S_def buf_D_def recv_event_def
  send_event_def counter_C_def NULL_def is_NULL_def has_entry_def check_def

text \<open>
  C1. A destination half and a source half of one transfer (same peer, same sequence tag,
  same byteLength) announced to a table that holds no descriptor for that key, in either
  order: both calls return, the first issues no copy, the second issues exactly one, the
  counter that came with the source half is one higher and nothing else in memory changed,
  and the table holds no descriptor for the key afterwards. The check of the completed
  descriptor is assumed to pass and the counter pointer to be non-null.
\<close>

theorem complementary_halves_fire_exactly_once:
  assumes "\<not> has_entry p t (pgas_send_info_map st)"
    and "is_NULL Sn" "\<not> is_NULL D" "where_rank D = p"
    and "\<not> is_NULL S" "is_NULL Dn" "where_rank Dn = p"
    and "c \<noteq> NULL"
    and "chk \<lparr>src_ptr = S, dst_ptr = D, nbytes = n, SeqNum = t,
               signal_event = se_d, done_event = de_s, send_counter = c\<rparr>"
  shows "(\<exists>st1 st2.
       Send chk st Sn D n t se_d de_d c_d = Inr st1 \<and>
       Send chk st1 S Dn n t se_s de_s c = Inr st2 \<and>
       issued_copies (trace st1) = issued_copies (trace st) \<and>
       issued_copies (trace st2) = issued_copies (trace st) @ [AsyncCopyAndSignal S D n se_d de_s] \<and>
       memory st2 = (memory st)(c := memory st c + 1) \<and>
       \<not> has_entry p t (pgas_send_info_map st2)) \<and>
     (\<exists>st1 st2.
       Send chk st S Dn n t se_s de_s c = Inr st1 \<and>
       Send chk st1 Sn D n t se_d de_d c_d = Inr st2 \<and>
       issued_copies (trace st1) = issued_copies (trace st) \<and>
       issued_copies (trace st2) = issued_copies (trace st) @ [AsyncCopyAndSignal S D n se_d de_s] \<and>
       memory st2 = (memory st)(c := memory st c + 1) \<and>
       \<not> has_entry p t (pgas_send_info_map st2))"
proof
  from dst_then_src [where chk = chk and de_d = de_d and c_d = c_d and se_s = se_s, OF assms]
  obtain st1 st2 where
    "Send chk st Sn D n t se_d de_d c_d = Inr st1"
    "issued_copies (trace st1) = issued_copies (trace st)"
    "Send chk st1 S Dn n t se_s de_s c = Inr st2"
    "pgas_send_info_map st2 = pgas_send_info_map st"
    "memory st2 = (memory st)(c := memory st c + 1)"
    "issued_copies (trace st2) = issued_copies (trace st) @ [AsyncCopyAndSignal S D n se_d de_s]"
    by force
  with assms(1) show "\<exists>st1 st2.
       Send chk st Sn D n t se_d de_d c_d = Inr st1 \<and>
       Send chk st1 S Dn n t se_s de_s c = Inr st2 \<and>
       issued_copies (trace st1) = issued_copies (trace st) \<and>
       issued_copies (trace st2) = issued_copies (trace st) @ [AsyncCopyAndSignal S D n se_d de_s] \<and>
       memory st2 = (memory st)(c := memory st c + 1) \<and>
       \<not> has_entry p t (pgas_send_info_map st2)"
    by auto
next
  from src_then_dst [where chk = chk and de_d = de_d and c_d = c_d and se_s = se_s, OF assms]
  obtain st1 st2 where
    "Send chk st S Dn n t se_s de_s c = Inr st1"
    "issued_copies (trace st1) = issued_copies (trace st)"
    "Send chk st1 Sn D n t se_d de_d c_d = Inr st2"
    "pgas_send_info_map st2 = pgas_send_info_map st"
    "memory st2 = (memory st)(c := memory st c + 1)"
    "issued_copies (trace st2) = issued_copies (trace st) @ [AsyncCopyAndSignal S D n se_d de_s]"
    by force
  with assms(1) show "\<exists>st1 st2.
       Send chk st S Dn n t se_s de_s c = Inr st1 \<and>
       Send chk st1 Sn D n t se_d de_d c_d = Inr st2 \<and>
       issued_copies (trace st1) = issued_copies (trace st) \<and>
       issued_copies (trace st2) = issued_copies (trace st) @ [AsyncCopyAndSignal S D n se_d de_s] \<and>
       memory st2 = (memory st)(c := memory st c + 1) \<and>
       \<not> has_entry p t (pgas_send_info_map st2)"
    by auto
qed

text \<open>Scenarios A and B of the spec: peer 3, tag 7, 1024 bytes, from the empty table.\<close>

theorem complementary_halves_fire_exactly_once_witness:
  "(\<exists>st1 st2.
       Send check init_state (null_on 0) buf_D 1024 7 recv_event NULL NULL = Inr st1 \<and>
       Send check st1 buf_S (null_on 3) 1024 7 NULL send_event counter_C = Inr st2 \<and>
       issued_copies (trace st1) = [] \<and>
       issued_copies (trace st2) = [AsyncCopyAndSignal buf_S buf_D 1024 recv_event send_event] \<and>
       memory st2 = (\<lambda>_. 0)(counter_C := 1) \<and>
       \<not> has_entry 3 7 (pgas_send_info_map st2)) \<and>
     (\<exists>st1 st2.
       Send check init_state buf_S (null_on 3) 1024 7 NULL send_event counter_C = Inr st1 \<and>
       Send check st1 (null_on 0) buf_D 1024 7 recv_event NULL NULL = Inr st2 \<and>
       issued_copies (trace st1) = [] \<and>
       issued_copies (trace st2) = [AsyncCopyAndSignal buf_S buf_D 1024 recv_event send_event] \<and>
       memory st2 = (\<lambda>_. 0)(counter_C := 1) \<and>
       \<not> has_entry 3 7 (pgas_send_info_map st2))"
proof -
  have "\<not> has_entry 3 7 (pgas_send_info_map init_state)"
    and "is_NULL (null_on 0)" and "\<not> is_NULL buf_D" and "where_rank buf_D = 3"
    and "\<not> is_NULL buf_S" and "is_NULL (null_on 3)" and "where_rank (null_on 3) = 3"
    and "counter_C \<noteq> NULL"
    and "check \<lparr>src_ptr = buf_S, dst_ptr = buf_D, nbytes = 1024, SeqNum = 7,
               signal_event = recv_event, done_event = send_event, send_counter = counter_C\<rparr>"
    by (simp_all add: scenario_defs)
  from complementary_halves_fire_exactly_once [where chk = check and de_d = NULL
      and c_d = NULL and se_s = NULL, OF this]
  show ?thesis
    by (simp add: init_state_def base_def)
qed

text \<open>
  C2. With the same hypotheses, announcing the destination half and then the source half
  fires the same transfer as announcing the source half and then the destination half: in
  both orders the events after the insertion of the first half are the same call of the
  copy primitive (source address, destination address, byteLength, the signal event that
  came with the destination half, the done event that came with the source half), the
  same increment of the same counter and the erasure of the same completed descriptor;
  memory and table end up equal.
\<close>

theorem announcement_order_is_irrelevant:
  assumes "\<not> has_entry p t (pgas_send_info_map st)"
    and "is_NULL Sn" "\<not> is_NULL D" "where_rank D = p"
    and "\<not> is_NULL S" "is_NULL Dn" "where_rank Dn = p"
    and "c \<noteq> NULL"
    and "chk \<lparr>src_ptr = S, dst_ptr = D, nbytes = n, SeqNum = t,
               signal_event = se_d, done_event = de_s, send_counter = c\<rparr>"
  shows "\<exists>a1 a2 b1 b2.
       Send chk st Sn D n t se_d de_d c_d = Inr a1 \<and>
       Send chk a1 S Dn n t se_s de_s c = Inr a2 \<and>
       Send chk st S Dn n t se_s de_s c = Inr b1 \<and>
       Send chk b1 Sn D n t se_d de_d c_d = Inr b2 \<and>
       drop (Suc (length (trace st))) (trace a2) =
         [AsyncCopyAndSignal S D n se_d de_s, CounterIncr c,
          MapErase p \<lparr>src_ptr = S, dst_ptr = D, nbytes = n, SeqNum = t,
            signal_event = se_d, done_event = de_s, send_counter = c\<rparr>] \<and>
       drop (Suc (length (trace st))) (trace b2) = drop (Suc (length (trace st))) (trace a2) \<and>
       issued_copies (trace b2) = issued_copies (trace a2) \<and>
       memory b2 = memory a2 \<and>
       memory a2 c = memory st c + 1 \<and>
       pgas_send_info_map b2 = pgas_send_info_map a2"
proof -
  from dst_then_src [where chk = chk and de_d = de_d and c_d = c_d and se_s = se_s, OF assms]
  obtain a1 a2 where a:
    "Send chk st Sn D n t se_d de_d c_d = Inr a1"
    "Send chk a1 S Dn n t se_s de_s c = Inr a2"
    "pgas_send_info_map a2 = pgas_send_info_map st"
    "memory a2 = (memory st)(c := memory st c + 1)"
    "trace a2 = trace st @
       [MapInsert p \<lparr>src_ptr = Sn, dst_ptr = D, nbytes = n, SeqNum = t,
          signal_event = se_d, done_event = de_d, send_counter = c_d\<rparr>,
        AsyncCopyAndSignal S D n se_d de_s, CounterIncr c,
        MapErase p \<lparr>src_ptr = S, dst_ptr = D, nbytes = n, SeqNum = t,
          signal_event = se_d, done_event = de_s, send_counter = c\<rparr>]"
    by force
  from src_then_dst [where chk = chk and de_d = de_d and c_d = c_d and se_s = se_s, OF assms]
  obtain b1 b2 where b:
    "Send chk st S Dn n t se_s de_s c = Inr b1"
    "Send chk b1 Sn D n t se_d de_d c_d = Inr b2"
    "pgas_send_info_map b2 = pgas_send_info_map st"
    "memory b2 = (memory st)(c := memory st c + 1)"
    "trace b2 = trace st @
       [MapInsert p \<lparr>src_ptr = S, dst_ptr = Dn, nbytes = n, SeqNum = t,
          signal_event = se_s, done_event = de_s, send_counter = c\<rparr>,
        AsyncCopyAndSignal S D n se_d de_s, CounterIncr c,
        MapErase p \<lparr>src_ptr = S, dst_ptr = D, nbytes = n, SeqNum = t,
          signal_event = se_d, done_event = de_s, send_counter = c\<rparr>]"
    by force
  have "drop (Suc (length (trace st))) (trace a2) =
         [AsyncCopyAndSignal S D n se_d de_s, CounterIncr c,
          MapErase p \<lparr>src_ptr = S, dst_ptr = D, nbytes = n, SeqNum = t,
            signal_event = se_d, done_event = de_s, send_counter = c\<rparr>]"
    and "drop (Suc (length (trace st))) (trace b2) = drop (Suc (length (trace st))) (trace a2)"
    and "issued_copies (trace b2) = issued_copies (trace a2)"
    and "memory b2 = memory a2"
    and "memory a2 c = memory st c + 1"
    and "pgas_send_info_map b2 = pgas_send_info_map a2"
    by (simp_all add: a(3-5) b(3-5))
  with a(1,2) b(1,2) show ?thesis by blast
qed

theorem announcement_order_is_irrelevant_witness:
  "\<exists>a1 a2 b1 b2.
       Send check init_state (null_on 0) buf_D 1024 7 recv_event NULL NULL = Inr a1 \<and>
       Send check a1 buf_S (null_on 3) 1024 7 NULL send_event counter_C = Inr a2 \<and>
       Send check init_state buf_S (null_on 3) 1024 7 NULL send_event counter_C = Inr b1 \<and>
       Send check b1 (null_on 0) buf_D 1024 7 recv_event NULL NULL = Inr b2 \<and>
       drop 1 (trace a2) =
         [AsyncCopyAndSignal buf_S buf_D 1024 recv_event send_event, CounterIncr counter_C,
          MapErase 3 \<lparr>src_ptr = buf_S, dst_ptr = buf_D, nbytes = 1024, SeqNum = 7,
            signal_event = recv_event, done_event = send_event, send_counter = counter_C\<rparr>] \<and>
       drop 1 (trace b2) = drop 1 (trace a2) \<and>
       issued_copies (trace b2) = issued_copies (trace a2) \<and>
       memory b2 = memory a2 \<and>
       memory a2 counter_C = 1 \<and>
       pgas_send_info_map b2 = pgas_send_info_map a2"
proof -
  have "\<not> has_entry 3 7 (pgas_send_info_map init_state)"
    and "is_NULL (null_on 0)" and "\<not> is_NULL buf_D" and "where_rank buf_D = 3"
    and "\<not> is_NULL buf_S" and "is_NULL (null_on 3)" and "where_rank (null_on 3) = 3"
    and "counter_C \<noteq> NULL"
    and "check \<lparr>src_ptr = buf_S, dst_ptr = buf_D, nbytes = 1024, SeqNum = 7,
               signal_event = recv_event, done_event = send_event, send_counter = counter_C\<rparr>"
    by (simp_all add: scenario_defs)
  from announcement_order_is_irrelevant [where chk = check and de_d = NULL
      and c_d = NULL and se_s = NULL, OF this]
  show ?thesis
    by (simp add: init_state_def base_def)
qed

text \<open>
  C6. When the matching loop finds a stored descriptor for the key and its byteLength
  differs from the one of the arriving half, the call aborts with SizeMismatch in the
  state it was entered in: nothing was written to the table, no copy was issued, no
  counter incremented, and the call does not return. This holds whichever half was
  stored and whatever the check would say.
\<close>

theorem size_mismatch_aborts_before_any_copy:
  assumes "find_SeqNum (where_rank dst) sn (pgas_send_info_map st) = Some i"
    and "nbytes (snd (pgas_send_info_map st ! i)) \<noteq> nb"
  shows "Send chk st src dst nb sn sig_ev done_ev counter = Inl (SizeMismatch, st)"
  using assms(2) by (auto simp add: Send_match [OF assms(1)])

text \<open>
  Property P4 of the spec: a destination half of 64 bytes, then a source half of 128 bytes
  for the same peer and tag.
\<close>

theorem size_mismatch_aborts_before_any_copy_witness:
  "\<exists>st1. Send check init_state (null_on 0) buf_D 64 7 recv_event NULL NULL = Inr st1 \<and>
     Send check st1 buf_S (null_on 3) 128 7 NULL send_event counter_C =
       Inl (SizeMismatch, st1) \<and>
     issued_copies (trace st1) = [] \<and> memory st1 = (\<lambda>_. 0)"
proof -
  define st1 where "st1 =
     \<lparr>pgas_send_info_map =
        [(3, \<lparr>src_ptr = null_on 0, dst_ptr = buf_D, nbytes = 64, SeqNum = 7,
           signal_event = recv_event, done_event = NULL, send_counter = NULL\<rparr>)],
      memory = (\<lambda>_. 0),
      trace = [MapInsert 3 \<lparr>src_ptr = null_on 0, dst_ptr = buf_D, nbytes = 64, SeqNum = 7,
           signal_event = recv_event, done_event = NULL, send_counter = NULL\<rparr>]\<rparr>"
  have first: "Send check init_state (null_on 0) buf_D 64 7 recv_event NULL NULL = Inr st1"
    by (simp add: Send_def Let_def st1_def init_state_def base_def buf_D_def)
  have found: "find_SeqNum (where_rank (null_on 3)) 7 (pgas_send_info_map st1) = Some 0"
    by (simp add: st1_def null_on_def)
  have differ: "nbytes (snd (pgas_send_info_map st1 ! 0)) \<noteq> 128"
    by (simp add: st1_def)
  note size_mismatch_aborts_before_any_copy [OF found differ]
  with first show ?thesis
    by (auto simp add: st1_def)
qed

text \<open>
  C8. When the table holds no descriptor with the key of the call (the rank of \<open>dst\<close> and
  the sequence number), the call returns, and all it did is insert one descriptor that
  carries the seven values of the call: the old entries are all still there, in place,
  memory is unchanged (no counter was incremented), and no copy was issued.
\<close>

theorem Send_without_match_only_stores:
  assumes "\<not> has_entry (where_rank dst) sn (pgas_send_info_map st)"
  shows "\<exists>st'. Send chk st src dst nb sn sig_ev done_ev counter = Inr st' \<and>
     pgas_send_info_map st' = pgas_send_info_map st @
       [(where_rank dst, \<lparr>src_ptr = src, dst_ptr = dst, nbytes = nb, SeqNum = sn,
          signal_event = sig_ev, done_event = done_ev, send_counter = counter\<rparr>)] \<and>
     take (length (pgas_send_info_map st)) (pgas_send_info_map st') = pgas_send_info_map st \<and>
     memory st' = memory st \<and>
     issued_copies (trace st') = issued_copies (trace st) \<and>
     trace st' = trace st @
       [MapInsert (where_rank dst) \<lparr>src_ptr = src, dst_ptr = dst, nbytes = nb, SeqNum = sn,
          signal_event = sig_ev, done_event = done_ev, send_counter = counter\<rparr>]"
  by (simp add: Send_store [OF assms])

text \<open>The destination half for tag 7 arrives while one for tag 8 is pending.\<close>

theorem Send_without_match_only_stores_witness:
  "\<exists>st0 st'. Send check init_state (null_on 0) buf_D 512 8 recv_event NULL NULL = Inr st0 \<and>
     \<not> has_entry (where_rank buf_D) 7 (pgas_send_info_map st0) \<and>
     Send check st0 (null_on 0) buf_D 1024 7 recv_event NULL NULL = Inr st' \<and>
     pgas_send_info_map st' =
       [(3, \<lparr>src_ptr = null_on 0, dst_ptr = buf_D, nbytes = 512, SeqNum = 8,
          signal_event = recv_event, done_event = NULL, send_counter = NULL\<rparr>),
        (3, \<lparr>src_ptr = null_on 0, dst_ptr = buf_D, nbytes = 1024, SeqNum = 7,
          signal_event = recv_event, done_event = NULL, send_counter = NULL\<rparr>)] \<and>
     memory st' = (\<lambda>_. 0) \<and>
     issued_copies (trace st') = []"
proof -
  define st0 where "st0 =
     \<lparr>pgas_send_info_map =
        [(3, \<lparr>src_ptr = null_on 0, dst_ptr = buf_D, nbytes = 512, SeqNum = 8,
           signal_event = recv_event, done_event = NULL, send_counter = NULL\<rparr>)],
      memory = (\<lambda>_. 0),
      trace = [MapInsert 3 \<lparr>src_ptr = null_on 0, dst_ptr = buf_D, nbytes = 512, SeqNum = 8,
           signal_event = recv_event, done_event = NULL, send_counter = NULL\<rparr>]\<rparr>"
  have first: "Send check init_state (null_on 0) buf_D 512 8 recv_event NULL NULL = Inr st0"
    by (simp add: Send_def Let_def st0_def init_state_def base_def buf_D_def)
  have miss: "\<not> has_entry (where_rank buf_D) 7 (pgas_send_info_map st0)"
    by (simp add: st0_def has_entry_def)
  from Send_without_match_only_stores [OF miss, of check "null_on 0" 1024 recv_event NULL NULL]
  obtain st' where
    "Send check st0 (null_on 0) buf_D 1024 7 recv_event NULL NULL = Inr st'"
    "pgas_send_info_map st' = pgas_send_info_map st0 @
       [(where_rank buf_D, \<lparr>src_ptr = null_on 0, dst_ptr = buf_D, nbytes = 1024, SeqNum = 7,
          signal_event = recv_event, done_event = NULL, send_counter = NULL\<rparr>)]"
    "memory st' = memory st0"
    "issued_copies (trace st') = issued_copies (trace st0)"
    by blast
  with first miss show ?thesis
    by (auto simp add: st0_def buf_D_def)
qed

subsection \<open>Claims that rest on the check of the completed descriptor\<close>

lemma Send_via_base:
  assumes "\<not> has_entry (where_rank dst) sn (pgas_send_info_map st)"
  shows "Send chk st src dst nb sn sig_ev done_ev counter =
     framed_result (pgas_send_info_map st) (trace st)
       (Send chk (base (memory st)) src dst nb sn sig_ev done_ev counter)"
  using Send_framed [OF assms, of chk "trace st" "base (memory st)"]
  by (simp add: framed_base)

lemma base_two_source_halves:
  assumes "\<not> is_NULL Sa" "is_NULL Dna" "where_rank Dna = p"
    and "is_NULL Dnb" "where_rank Dnb = p"
  shows "Send check (base m) Sa Dna n t se_a de_a c_a =
       Inr \<lparr>pgas_send_info_map =
              [(p, \<lparr>src_ptr = Sa, dst_ptr = Dna, nbytes = n, SeqNum = t,
                 signal_event = se_a, done_event = de_a, send_counter = c_a\<rparr>)],
            memory = m,
            trace =
              [MapInsert p \<lparr>src_ptr = Sa, dst_ptr = Dna, nbytes = n, SeqNum = t,
                 signal_event = se_a, done_event = de_a, send_counter = c_a\<rparr>]\<rparr> \<and>
     Send check
       \<lparr>pgas_send_info_map =
              [(p, \<lparr>src_ptr = Sa, dst_ptr = Dna, nbytes = n, SeqNum = t,
                 signal_event = se_a, done_event = de_a, send_counter = c_a\<rparr>)],
            memory = m,
            trace =
              [MapInsert p \<lparr>src_ptr = Sa, dst_ptr = Dna, nbytes = n, SeqNum = t,
                 signal_event = se_a, done_event = de_a, send_counter = c_a\<rparr>]\<rparr>
       Sb Dnb n t se_b de_b c_b =
       Inl (DuplicateRole,
         \<lparr>pgas_send_info_map =
              [(p, \<lparr>src_ptr = Sa, dst_ptr = Dnb, nbytes = n, SeqNum = t,
                 signal_event = se_b, done_event = de_a, send_counter = c_a\<rparr>)],
            memory = m,
            trace =
              [MapInsert p \<lparr>src_ptr = Sa, dst_ptr = Dna, nbytes = n, SeqNum = t,
                 signal_event = se_a, done_event = de_a, send_counter = c_a\<rparr>]\<rparr>)"
  using assms by (simp add: Send_exec check_def)

text \<open>
  C4. Two source halves of one transfer (same peer, sequence tag and byteLength; a source
  half names the receiving rank with a null destination address) announced to a table
  that holds no descriptor for the key, with no destination half in between: the first is
  stored, and the second aborts in the check of the completed descriptor, whose
  destination is still null. That abort is the spec's DuplicateRole. No copy is issued
  and no counter is incremented. Halves that also differ in byteLength are stopped
  earlier, by the size assertion of C6.
\<close>

theorem two_source_halves_abort_without_copy:
  assumes "\<not> has_entry p t (pgas_send_info_map st)"
    and "\<not> is_NULL Sa" "is_NULL Dna" "where_rank Dna = p"
    and "is_NULL Dnb" "where_rank Dnb = p"
  shows "\<exists>st1 st2.
     Send check st Sa Dna n t se_a de_a c_a = Inr st1 \<and>
     Send check st1 Sb Dnb n t se_b de_b c_b = Inl (DuplicateRole, st2) \<and>
     trace st2 = trace st1 \<and>
     issued_copies (trace st2) = issued_copies (trace st) \<and>
     memory st2 = memory st"
proof -
  let ?tbl = "pgas_send_info_map st" and ?tr = "trace st"
  have m1: "\<not> has_entry (where_rank Dna) t ?tbl" and m2: "\<not> has_entry (where_rank Dnb) t ?tbl"
    using assms by simp_all
  note b = base_two_source_halves [where m = "memory st" and n = n and t = t and Sb = Sb
      and se_a = se_a and de_a = de_a and c_a = c_a and se_b = se_b and de_b = de_b and c_b = c_b,
      OF assms(2-6)]
  define sb1 where "sb1 =
      \<lparr>pgas_send_info_map =
              [(p, \<lparr>src_ptr = Sa, dst_ptr = Dna, nbytes = n, SeqNum = t,
                 signal_event = se_a, done_event = de_a, send_counter = c_a\<rparr>)],
            memory = memory st,
            trace =
              [MapInsert p \<lparr>src_ptr = Sa, dst_ptr = Dna, nbytes = n, SeqNum = t,
                 signal_event = se_a, done_event = de_a, send_counter = c_a\<rparr>]\<rparr>"
  define sb2 where "sb2 =
      \<lparr>pgas_send_info_map =
              [(p, \<lparr>src_ptr = Sa, dst_ptr = Dnb, nbytes = n, SeqNum = t,
                 signal_event = se_b, done_event = de_a, send_counter = c_a\<rparr>)],
            memory = memory st,
            trace =
              [MapInsert p \<lparr>src_ptr = Sa, dst_ptr = Dna, nbytes = n, SeqNum = t,
                 signal_event = se_a, done_event = de_a, send_counter = c_a\<rparr>]\<rparr>"
  have first: "Send check st Sa Dna n t se_a de_a c_a = Inr (framed ?tbl ?tr sb1)"
    using b by (simp add: Send_via_base [OF m1] sb1_def)
  have "Send check (framed ?tbl ?tr sb1) Sb Dnb n t se_b de_b c_b =
      framed_result ?tbl ?tr (Send check sb1 Sb Dnb n t se_b de_b c_b)"
    by (rule Send_framed [OF m2])
  then have second: "Send check (framed ?tbl ?tr sb1) Sb Dnb n t se_b de_b c_b =
      Inl (DuplicateRole, framed ?tbl ?tr sb2)"
    using b by (simp add: sb1_def sb2_def)
  have "trace (framed ?tbl ?tr sb2) = trace (framed ?tbl ?tr sb1)"
    and "issued_copies (trace (framed ?tbl ?tr sb2)) = issued_copies ?tr"
    and "memory (framed ?tbl ?tr sb2) = memory st"
    by (simp_all add: sb1_def sb2_def framed_def)
  with first second show ?thesis by blast
qed

theorem two_source_halves_abort_without_copy_witness:
  "\<exists>st1 st2.
     Send check init_state buf_S (null_on 3) 1024 7 NULL send_event counter_C = Inr st1 \<and>
     Send check st1 buf_S (null_on 3) 1024 7 NULL send_event counter_C =
       Inl (DuplicateRole, st2) \<and>
     trace st2 = trace st1 \<and>
     issued_copies (trace st2) = [] \<and>
     memory st2 = (\<lambda>_. 0)"
proof -
  have "\<not> has_entry 3 7 (pgas_send_info_map init_state)"
    and "\<not> is_NULL buf_S" and "is_NULL (null_on 3)" and "where_rank (null_on 3) = 3"
    and "is_NULL (null_on 3)" and "where_rank (null_on 3) = 3"
    by (simp_all add: scenario_defs)
  from two_source_halves_abort_without_copy [OF this]
  show ?thesis
    by (simp add: init_state_def base_def)
qed

text \<open>
  C5. The matching loop has found a stored descriptor \<open>old\<close> of the arriving byteLength
  whose source address is null. The call writes the arriving source address, done event
  and counter pointer into it, in place. The check of the completed descriptor then
  aborts when the stored destination address is null (and when the arriving source is),
  before any copy is issued; otherwise the copy is issued from the arriving source to the
  stored destination with the stored signal event and the arriving done event, and the
  arriving counter is incremented.
\<close>

theorem match_on_null_source_takes_source_fields:
  assumes "find_SeqNum (where_rank dst) sn (pgas_send_info_map st) = Some i"
    and "nbytes (snd (pgas_send_info_map st ! i)) = nb"
    and "is_NULL (src_ptr (snd (pgas_send_info_map st ! i)))"
  shows "Send check st src dst nb sn sig_ev done_ev counter =
     (let old = snd (pgas_send_info_map st ! i);
          merged = old\<lparr>src_ptr := src, done_event := done_ev, send_counter := counter\<rparr>;
          st1 = st\<lparr>pgas_send_info_map := (pgas_send_info_map st)[i := (where_rank dst, merged)]\<rparr>;
          copy = AsyncCopyAndSignal src (dst_ptr old) nb (signal_event old) done_ev
      in if is_NULL (dst_ptr old) then Inl (DuplicateRole, st1)
         else if is_NULL src then Inl (DuplicateRole, st1)
         else if counter = NULL then Inl (NullCounter, st1\<lparr>trace := trace st @ [copy]\<rparr>)
         else Inr \<lparr>pgas_send_info_map = erase i (pgas_send_info_map st),
                   memory = (memory st)(counter := memory st counter + 1),
                   trace = trace st @
                     [copy, CounterIncr counter, MapErase (where_rank dst) merged]\<rparr>)"
proof -
  have k: "fst (pgas_send_info_map st ! i) = where_rank dst"
    using find_SeqNum_Some [OF assms(1)] by simp
  have "Send check st src dst nb sn sig_ev done_ev counter =
      fire check st i
        ((snd (pgas_send_info_map st ! i))
           \<lparr>src_ptr := src, done_event := done_ev, send_counter := counter\<rparr>)"
    using assms(2,3) by (simp add: Send_match [OF assms(1)])
  then show ?thesis
    using assms(2) k
    by (cases st) (simp add: fire_def Let_def check_def erase_update)
qed

text \<open>Scenario A: the source half arrives at the stored destination half.\<close>

theorem match_on_null_source_takes_source_fields_witness:
  "Send check (state_of (Send check init_state (null_on 0) buf_D 1024 7 recv_event NULL NULL))
     buf_S (null_on 3) 1024 7 NULL send_event counter_C =
   Inr \<lparr>pgas_send_info_map = [],
        memory = (\<lambda>_. 0)(counter_C := 1),
        trace =
          [MapInsert 3 \<lparr>src_ptr = null_on 0, dst_ptr = buf_D, nbytes = 1024, SeqNum = 7,
             signal_event = recv_event, done_event = NULL, send_counter = NULL\<rparr>,
           AsyncCopyAndSignal buf_S buf_D 1024 recv_event send_event,
           CounterIncr counter_C,
           MapErase 3 \<lparr>src_ptr = buf_S, dst_ptr = buf_D, nbytes = 1024, SeqNum = 7,
             signal_event = recv_event, done_event = send_event, send_counter = counter_C\<rparr>]\<rparr>"
proof -
  define st1 where "st1 =
     \<lparr>pgas_send_info_map =
        [(3, \<lparr>src_ptr = null_on 0, dst_ptr = buf_D, nbytes = 1024, SeqNum = 7,
           signal_event = recv_event, done_event = NULL, send_counter = NULL\<rparr>)],
      memory = (\<lambda>_. 0),
      trace = [MapInsert 3 \<lparr>src_ptr = null_on 0, dst_ptr = buf_D, nbytes = 1024, SeqNum = 7,
           signal_event = recv_event, done_event = NULL, send_counter = NULL\<rparr>]\<rparr>"
  have first: "state_of (Send check init_state (null_on 0) buf_D 1024 7 recv_event NULL NULL) = st1"
    by (simp add: Send_def Let_def st1_def init_state_def base_def buf_D_def)
  have found: "find_SeqNum (where_rank (null_on 3)) 7 (pgas_send_info_map st1) = Some 0"
    by (simp add: st1_def null_on_def)
  have size: "nbytes (snd (pgas_send_info_map st1 ! 0)) = 1024"
    by (simp add: st1_def)
  have null: "is_NULL (src_ptr (snd (pgas_send_info_map st1 ! 0)))"
    by (simp add: st1_def null_on_def is_NULL_def)
  note match_on_null_source_takes_source_fields [OF found size null,
      of buf_S NULL send_event counter_C]
  then show ?thesis
    unfolding first
    by (simp add: st1_def Let_def null_on_def buf_S_def buf_D_def is_NULL_def NULL_def
        counter_C_def)
qed

subsection \<open>The order of the steps when a match fires\<close>

lemma fire_Inr:
  assumes "fire chk st i si = Inr st'"
  shows "st' =
     \<lparr>pgas_send_info_map = erase i (pgas_send_info_map st),
      memory = (memory st)(send_counter si := memory st (send_counter si) + 1),
      trace = trace st @
        [AsyncCopyAndSignal (src_ptr si) (dst_ptr si) (nbytes si)
           (signal_event si) (done_event si),
         CounterIncr (send_counter si),
         MapErase (fst (pgas_send_info_map st ! i)) si]\<rparr>"
proof -
  have "chk si" and "send_counter si \<noteq> NULL"
    using assms by (auto simp add: fire_def Let_def split: if_splits)
  from fire_ok [where chk = chk and si = si and st = st and i = i, OF this] assms
  show ?thesis by simp
qed

text \<open>
  C3, as the code has it. When the matching loop finds a descriptor and the call returns,
  the call has completed the descriptor in place and then, in this order, invoked the copy
  primitive on the completed descriptor, incremented the counter, and erased the entry:
  the erase is the last step, after the invocation of the copy primitive, and it is done
  when the call returns.
\<close>

theorem fired_match_copies_then_counts_then_erases:
  assumes "find_SeqNum (where_rank dst) sn (pgas_send_info_map st) = Some i"
    and "Send chk st src dst nb sn sig_ev done_ev counter = Inr st'"
  shows "let old = snd (pgas_send_info_map st ! i);
             si = (if is_NULL (src_ptr old)
                   then old\<lparr>src_ptr := src, done_event := done_ev, send_counter := counter\<rparr>
                   else old\<lparr>dst_ptr := dst, signal_event := sig_ev\<rparr>)
         in trace st' = trace st @
              [AsyncCopyAndSignal (src_ptr si) (dst_ptr si) (nbytes si)
                 (signal_event si) (done_event si),
               CounterIncr (send_counter si),
               MapErase (where_rank dst) si] \<and>
            \<not> erase_precedes_copy (drop (length (trace st)) (trace st')) \<and>
            pgas_send_info_map st' = erase i (pgas_send_info_map st)"
proof -
  let ?old = "snd (pgas_send_info_map st ! i)"
  let ?si = "if is_NULL (src_ptr ?old)
      then ?old\<lparr>src_ptr := src, done_event := done_ev, send_counter := counter\<rparr>
      else ?old\<lparr>dst_ptr := dst, signal_event := sig_ev\<rparr>"
  have k: "fst (pgas_send_info_map st ! i) = where_rank dst"
    using find_SeqNum_Some [OF assms(1)] by simp
  have "fire chk st i ?si = Inr st'"
    using assms(2) unfolding Send_match [OF assms(1)]
    by (simp split: if_splits)
  from fire_Inr [OF this] show ?thesis
    by (simp add: Let_def k)
qed

theorem fired_match_copies_then_counts_then_erases_witness:
  "find_SeqNum (where_rank (null_on 3)) 7
     [(3, \<lparr>src_ptr = null_on 0, dst_ptr = buf_D, nbytes = 1024, SeqNum = 7,
           signal_event = recv_event, done_event = NULL, send_counter = NULL\<rparr>)] = Some 0 \<and>
   (\<exists>st'. Send check
       \<lparr>pgas_send_info_map =
          [(3, \<lparr>src_ptr = null_on 0, dst_ptr = buf_D, nbytes = 1024, SeqNum = 7,
             signal_event = recv_event, done_event = NULL, send_counter = NULL\<rparr>)],
        memory = (\<lambda>_. 0), trace = []\<rparr>
       buf_S (null_on 3) 1024 7 NULL send_event counter_C = Inr st' \<and>
     trace st' =
       [AsyncCopyAndSignal buf_S buf_D 1024 recv_event send_event,
        CounterIncr counter_C,
        MapErase 3 \<lparr>src_ptr = buf_S, dst_ptr = buf_D, nbytes = 1024, SeqNum = 7,
          signal_event = recv_event, done_event = send_event, send_counter = counter_C\<rparr>] \<and>
     \<not> erase_precedes_copy (trace st') \<and>
     pgas_send_info_map st' = [])"
proof -
  define st1 where "st1 =
     \<lparr>pgas_send_info_map =
        [(3, \<lparr>src_ptr = null_on 0, dst_ptr = buf_D, nbytes = 1024, SeqNum = 7,
           signal_event = recv_event, done_event = NULL, send_counter = NULL\<rparr>)],
      memory = (\<lambda>_. 0), trace = []\<rparr>"
  define st2 where "st2 =
     \<lparr>pgas_send_info_map = [],
      memory = (\<lambda>_. 0)(counter_C := 1),
      trace =
       [AsyncCopyAndSignal buf_S buf_D 1024 recv_event send_event,
        CounterIncr counter_C,
        MapErase 3 \<lparr>src_ptr = buf_S, dst_ptr = buf_D, nbytes = 1024, SeqNum = 7,
          signal_event = recv_event, done_event = send_event, send_counter = counter_C\<rparr>]\<rparr>"
  have found: "find_SeqNum (where_rank (null_on 3)) 7 (pgas_send_info_map st1) = Some 0"
    by (simp add: st1_def null_on_def)
  have fired: "Send check st1 buf_S (null_on 3) 1024 7 NULL send_event counter_C = Inr st2"
    by (simp add: st1_def st2_def Send_def fire_def Let_def scenario_defs)
  note fired_match_copies_then_counts_then_erases [OF found fired]
  then have "trace st2 = trace st1 @
       [AsyncCopyAndSignal buf_S buf_D 1024 recv_event send_event,
        CounterIncr counter_C,
        MapErase 3 \<lparr>src_ptr = buf_S, dst_ptr = buf_D, nbytes = 1024, SeqNum = 7,
          signal_event = recv_event, done_event = send_event, send_counter = counter_C\<rparr>]"
    and "\<not> erase_precedes_copy (drop (length (trace st1)) (trace st2))"
    and "pgas_send_info_map st2 = erase 0 (pgas_send_info_map st1)"
    by (simp_all add: Let_def st1_def null_on_def is_NULL_def NULL_def)
  then have "trace st2 =
       [AsyncCopyAndSignal buf_S buf_D 1024 recv_event send_event,
        CounterIncr counter_C,
        MapErase 3 \<lparr>src_ptr = buf_S, dst_ptr = buf_D, nbytes = 1024, SeqNum = 7,
          signal_event = recv_event, done_event = send_event, send_counter = counter_C\<rparr>]"
    and "\<not> erase_precedes_copy (trace st2)"
    and "pgas_send_info_map st2 = []"
    by (simp_all add: st1_def)
  with found fired show ?thesis
    unfolding st1_def [symmetric] by (auto simp add: st1_def)
qed

text \<open>
  C3 as the claim states it, refuted by scenario A: the events of the firing call (all but
  the first one, which is the insertion done by the destination half) begin with the call
  of the copy primitive, and the erase is the last of them.
\<close>

theorem erase_precedes_copy_counterexample:
  "trace (state_of (run check init_state
       [dest_half buf_D 1024 7, source_half buf_S 3 1024 7])) =
     [MapInsert 3 \<lparr>src_ptr = null_on 0, dst_ptr = buf_D, nbytes = 1024, SeqNum = 7,
        signal_event = recv_event, done_event = NULL, send_counter = NULL\<rparr>,
      AsyncCopyAndSignal buf_S buf_D 1024 recv_event send_event,
      CounterIncr counter_C,
      MapErase 3 \<lparr>src_ptr = buf_S, dst_ptr = buf_D, nbytes = 1024, SeqNum = 7,
        signal_event = recv_event, done_event = send_event, send_counter = counter_C\<rparr>] \<and>
   \<not> erase_precedes_copy (drop 1 (trace (state_of (run check init_state
       [dest_half buf_D 1024 7, source_half buf_S 3 1024 7]))))"
  by (simp add: Send_call_def dest_half_def source_half_def Send_def fire_def Let_def scenario_defs)

subsection \<open>Invariants of the table\<close>

lemma has_entry_keys:
  "has_entry k s tbl \<longleftrightarrow> (k, s) \<in> set (map (\<lambda>e. (fst e, SeqNum (snd e))) tbl)"
  by (auto simp add: has_entry_def)

lemma has_entry_append [simp]:
  "has_entry k s (xs @ ys) \<longleftrightarrow> has_entry k s xs \<or> has_entry k s ys"
  by (auto simp add: has_entry_def)

lemma no_dup_snoc:
  "no_dup tbl \<Longrightarrow> \<not> has_entry k (SeqNum si) tbl \<Longrightarrow> no_dup (tbl @ [(k, si)])"
  by (simp add: no_dup_def has_entry_keys)

lemma keys_update:
  assumes "i < length tbl" "fst (tbl ! i) = k" "SeqNum si = SeqNum (snd (tbl ! i))"
  shows "map (\<lambda>e. (fst e, SeqNum (snd e))) (tbl[i := (k, si)]) =
     map (\<lambda>e. (fst e, SeqNum (snd e))) tbl"
  using assms by (simp add: map_update list_update_same_conv)

lemma distinct_erase: "distinct xs \<Longrightarrow> distinct (erase i xs)"
  unfolding erase_def
  by (simp add: set_take_disj_set_drop_if_distinct)

lemma map_erase: "map f (erase i xs) = erase i (map f xs)"
  by (simp add: erase_def take_map drop_map)

lemma no_dup_erase: "no_dup tbl \<Longrightarrow> no_dup (erase i tbl)"
  by (simp add: no_dup_def map_erase distinct_erase)

lemma nth_notin_erase:
  assumes "distinct xs" "i < length xs"
  shows "xs ! i \<notin> set (erase i xs)"
proof -
  have "xs = take i xs @ xs ! i # drop (Suc i) xs"
    using assms(2) by (simp add: id_take_nth_drop)
  then have "distinct (take i xs @ xs ! i # drop (Suc i) xs)"
    using assms(1) by simp
  then show ?thesis
    by (auto simp add: erase_def)
qed

lemma erase_removes_key:
  assumes "no_dup tbl" "i < length tbl"
  shows "\<not> has_entry (fst (tbl ! i)) (SeqNum (snd (tbl ! i))) (erase i tbl)"
proof -
  let ?f = "\<lambda>e. (fst e, SeqNum (snd e))"
  have "map ?f tbl ! i \<notin> set (erase i (map ?f tbl))"
    using assms by (intro nth_notin_erase) (simp_all add: no_dup_def)
  then show ?thesis
    using assms(2) by (simp add: has_entry_keys map_erase)
qed

lemma length_erase: "i < length xs \<Longrightarrow> Suc (length (erase i xs)) = length xs"
  by (auto simp add: erase_def)

lemma fire_table:
  "pgas_send_info_map (state_of (fire chk st i si)) =
     (if chk si \<and> send_counter si \<noteq> NULL then erase i (pgas_send_info_map st)
      else (pgas_send_info_map st)[i := (fst (pgas_send_info_map st ! i), si)])"
  by (simp add: fire_def Let_def erase_update)

lemma fire_no_dup:
  assumes "no_dup (pgas_send_info_map st)" "i < length (pgas_send_info_map st)"
    and "SeqNum si = SeqNum (snd (pgas_send_info_map st ! i))"
  shows "no_dup (pgas_send_info_map (state_of (fire chk st i si)))"
proof (cases "chk si \<and> send_counter si \<noteq> NULL")
  case True
  then show ?thesis
    using assms(1) by (simp add: fire_table no_dup_erase)
next
  case False
  then show ?thesis
    using assms keys_update [OF assms(2) refl assms(3)]
    by (auto simp add: fire_table no_dup_def)
qed

lemma Send_no_dup:
  assumes "no_dup (pgas_send_info_map st)"
  shows "no_dup (pgas_send_info_map (state_of (Send chk st src dst nb sn sig_ev done_ev counter)))"
proof (cases "find_SeqNum (where_rank dst) sn (pgas_send_info_map st)")
  case None
  then have "\<not> has_entry (where_rank dst) sn (pgas_send_info_map st)"
    by (simp add: find_SeqNum_None_iff)
  then show ?thesis
    using assms by (simp add: Send_store no_dup_snoc)
next
  case (Some i)
  note f = find_SeqNum_Some [OF Some]
  show ?thesis
    unfolding Send_match [OF Some]
    using assms f by (simp add: fire_no_dup)
qed

lemma run_no_dup:
  assumes "no_dup (pgas_send_info_map st)"
  shows "no_dup (pgas_send_info_map (state_of (run chk st cs)))"
  using assms
proof (induction cs arbitrary: st)
  case Nil
  then show ?case by simp
next
  case (Cons c cs)
  have step: "no_dup (pgas_send_info_map (state_of (Send_call chk st c)))"
    unfolding Send_call_def by (rule Send_no_dup [OF Cons.prems])
  show ?case
  proof (cases "Send_call chk st c")
    case (Inl e)
    with step show ?thesis by simp
  next
    case (Inr st')
    with step Cons.IH [of st'] show ?thesis by simp
  qed
qed

lemma Send_Inr_match:
  assumes "find_SeqNum (where_rank dst) sn (pgas_send_info_map st) = Some i"
    and "Send chk st src dst nb sn sig_ev done_ev counter = Inr st'"
  shows "pgas_send_info_map st' = erase i (pgas_send_info_map st)"
proof -
  have "\<exists>si. fire chk st i si = Inr st'"
    using assms(2) unfolding Send_match [OF assms(1)]
    by (auto split: if_splits)
  then obtain si where "fire chk st i si = Inr st'" ..
  from fire_Inr [OF this] show ?thesis by simp
qed

lemma Send_grows_only_without_match:
  assumes "Send chk st src dst nb sn sig_ev done_ev counter = Inr st'"
    and "length (pgas_send_info_map st) < length (pgas_send_info_map st')"
  shows "\<not> has_entry (where_rank dst) sn (pgas_send_info_map st)"
proof
  assume "has_entry (where_rank dst) sn (pgas_send_info_map st)"
  then obtain i where i: "find_SeqNum (where_rank dst) sn (pgas_send_info_map st) = Some i"
    using find_SeqNum_None_iff [of "where_rank dst" sn "pgas_send_info_map st"] by auto
  note Send_Inr_match [OF i assms(1)]
  moreover have "Suc (length (erase i (pgas_send_info_map st))) = length (pgas_send_info_map st)"
    using find_SeqNum_Some [OF i] by (simp add: length_erase)
  ultimately show False using assms(2) by simp
qed

lemma keyed_by_dst_erase: "keyed_by_dst tbl \<Longrightarrow> keyed_by_dst (erase i tbl)"
  unfolding keyed_by_dst_def erase_def list_all_iff
  by (auto dest: in_set_takeD in_set_dropD)

lemma keyed_by_dst_update:
  "keyed_by_dst tbl \<Longrightarrow> k = where_rank (dst_ptr si) \<Longrightarrow> keyed_by_dst (tbl[i := (k, si)])"
  unfolding keyed_by_dst_def list_all_iff
  by (auto dest!: set_update_subset_insert [THEN subsetD])

lemma fire_keyed:
  assumes "keyed_by_dst (pgas_send_info_map st)"
    and "fst (pgas_send_info_map st ! i) = where_rank (dst_ptr si)"
  shows "keyed_by_dst (pgas_send_info_map (state_of (fire chk st i si)))"
  using assms by (simp add: fire_table keyed_by_dst_erase keyed_by_dst_update)

lemma Send_keyed:
  assumes "keyed_by_dst (pgas_send_info_map st)"
  shows "keyed_by_dst
     (pgas_send_info_map (state_of (Send chk st src dst nb sn sig_ev done_ev counter)))"
proof (cases "find_SeqNum (where_rank dst) sn (pgas_send_info_map st)")
  case None
  then have "\<not> has_entry (where_rank dst) sn (pgas_send_info_map st)"
    by (simp add: find_SeqNum_None_iff)
  then show ?thesis
    using assms by (simp add: Send_store keyed_by_dst_def)
next
  case (Some i)
  note f = find_SeqNum_Some [OF Some]
  have old: "fst (pgas_send_info_map st ! i) =
      where_rank (dst_ptr (snd (pgas_send_info_map st ! i)))"
    using assms f by (auto simp add: keyed_by_dst_def list_all_length)
  show ?thesis
    unfolding Send_match [OF Some]
    using assms f old by (simp add: fire_keyed)
qed

lemma run_keyed:
  assumes "keyed_by_dst (pgas_send_info_map st)"
  shows "keyed_by_dst (pgas_send_info_map (state_of (run chk st cs)))"
  using assms
proof (induction cs arbitrary: st)
  case Nil
  then show ?case by simp
next
  case (Cons c cs)
  have step: "keyed_by_dst (pgas_send_info_map (state_of (Send_call chk st c)))"
    unfolding Send_call_def by (rule Send_keyed [OF Cons.prems])
  show ?case
  proof (cases "Send_call chk st c")
    case (Inl e)
    with step show ?thesis by simp
  next
    case (Inr st')
    with step Cons.IH [of st'] show ?thesis by simp
  qed
qed

subsection \<open>Two transfers with different tags\<close>

lemma base_interleaved:
  assumes "Ta \<noteq> Tb"
    and "is_dest_half p Ta na da" "is_source_half p Ta na sa" "chk (completed da sa)"
    and "is_dest_half p Tb nb db" "is_source_half p Tb nb sb" "chk (completed db sb)"
    and "ha = [da, sa] \<or> ha = [sa, da]" "hb = [db, sb] \<or> hb = [sb, db]"
    and "cs \<in> shuffles ha hb"
  shows "\<exists>st'. run chk (base m) cs = Inr st' \<and>
     pgas_send_info_map st' = [] \<and>
     (issued_copies (trace st') = [fired_copy da sa, fired_copy db sb] \<or>
      issued_copies (trace st') = [fired_copy db sb, fired_copy da sa]) \<and>
     (\<forall>a. memory st' a =
        m a + (if a = arg_send_counter sa then 1 else 0)
            + (if a = arg_send_counter sb then 1 else 0))"
proof -
  have neq: "Tb \<noteq> Ta" using assms(1) by simp
  note facts = assms(2-7) [unfolded is_dest_half_def is_source_half_def completed_def]
  have "cs \<in> {[da, sa, db, sb], [da, db, sa, sb], [da, db, sb, sa],
               [db, da, sa, sb], [db, da, sb, sa], [db, sb, da, sa],
               [sa, da, db, sb], [sa, db, da, sb], [sa, db, sb, da],
               [db, sa, da, sb], [db, sa, sb, da], [db, sb, sa, da],
               [da, sa, sb, db], [da, sb, sa, db], [da, sb, db, sa],
               [sb, da, sa, db], [sb, da, db, sa], [sb, db, da, sa],
               [sa, da, sb, db], [sa, sb, da, db], [sa, sb, db, da],
               [sb, sa, da, db], [sb, sa, db, da], [sb, db, sa, da]}"
    using assms(8-10) by auto
  then show ?thesis
    using facts assms(1) neq
    apply (elim insertE emptyE)
    apply (simp_all add: Send_call_def Send_def fire_def Let_def is_NULL_def base_def fired_copy_def)
    done
qed

text \<open>
  The same from any state whose table holds no descriptor for either key.
\<close>

lemma interleaved:
  assumes "Ta \<noteq> Tb"
    and "\<not> has_entry p Ta (pgas_send_info_map st)" "\<not> has_entry p Tb (pgas_send_info_map st)"
    and "is_dest_half p Ta na da" "is_source_half p Ta na sa" "chk (completed da sa)"
    and "is_dest_half p Tb nb db" "is_source_half p Tb nb sb" "chk (completed db sb)"
    and "ha = [da, sa] \<or> ha = [sa, da]" "hb = [db, sb] \<or> hb = [sb, db]"
    and "cs \<in> shuffles ha hb"
  shows "\<exists>st'. run chk st cs = Inr st' \<and>
     pgas_send_info_map st' = pgas_send_info_map st \<and>
     (issued_copies (trace st') =
        issued_copies (trace st) @ [fired_copy da sa, fired_copy db sb] \<or>
      issued_copies (trace st') =
        issued_copies (trace st) @ [fired_copy db sb, fired_copy da sa]) \<and>
     (\<forall>a. memory st' a =
        memory st a + (if a = arg_send_counter sa then 1 else 0)
                    + (if a = arg_send_counter sb then 1 else 0))"
proof -
  let ?tbl = "pgas_send_info_map st" and ?tr = "trace st"
  have cs: "set cs = set ha \<union> set hb"
    using assms(12) by (rule set_shuffles)
  have key: "where_rank (arg_dst c) = p \<and> (arg_SeqNum c = Ta \<or> arg_SeqNum c = Tb)"
    if "c \<in> {da, sa, db, sb}" for c
    using that assms(4,5,7,8) by (auto simp add: is_dest_half_def is_source_half_def)
  have "\<forall>c \<in> set cs. \<not> has_entry (where_rank (arg_dst c)) (arg_SeqNum c) ?tbl"
  proof
    fix c
    assume "c \<in> set cs"
    then have "c \<in> set ha \<or> c \<in> set hb" by (simp add: cs)
    then have "c \<in> {da, sa, db, sb}"
      using assms(10,11) by auto
    from key [OF this] assms(2,3)
    show "\<not> has_entry (where_rank (arg_dst c)) (arg_SeqNum c) ?tbl" by auto
  qed
  then have "run chk (framed ?tbl ?tr (base (memory st))) cs =
      framed_result ?tbl ?tr (run chk (base (memory st)) cs)"
    by (rule run_framed)
  then have r: "run chk st cs = framed_result ?tbl ?tr (run chk (base (memory st)) cs)"
    by (simp add: framed_base)
  from base_interleaved [where chk = chk and m = "memory st",
      OF assms(1) assms(4-9) assms(10-12)]
  obtain sb' where b: "run chk (base (memory st)) cs = Inr sb' \<and>
    pgas_send_info_map sb' = [] \<and>
    (issued_copies (trace sb') = [fired_copy da sa, fired_copy db sb] \<or>
     issued_copies (trace sb') = [fired_copy db sb, fired_copy da sa]) \<and>
    (\<forall>a. memory sb' a =
        memory st a + (if a = arg_send_counter sa then 1 else 0)
                    + (if a = arg_send_counter sb then 1 else 0))" ..
  have "run chk st cs = Inr (framed ?tbl ?tr sb')"
    using b by (simp add: r)
  moreover have "pgas_send_info_map (framed ?tbl ?tr sb') = ?tbl"
    using b by (simp add: framed_def)
  moreover have "issued_copies (trace (framed ?tbl ?tr sb')) =
        issued_copies ?tr @ [fired_copy da sa, fired_copy db sb] \<or>
      issued_copies (trace (framed ?tbl ?tr sb')) =
        issued_copies ?tr @ [fired_copy db sb, fired_copy da sa]"
    using b by (simp add: framed_def)
  moreover have "\<forall>a. memory (framed ?tbl ?tr sb') a =
        memory st a + (if a = arg_send_counter sa then 1 else 0)
                    + (if a = arg_send_counter sb then 1 else 0)"
    using b by (simp add: framed_def)
  ultimately show ?thesis
    by (intro exI [of _ "framed ?tbl ?tr sb'"] conjI)
qed

section \<open>The claims on the table as a whole\<close>

text \<open>
  C7. At most one descriptor per key (peer, sequence tag): the tables that sequences
  of calls build from the empty table never hold two descriptors with the same key,
  whether the last call returned or aborted, and whatever the check does; any call keeps
  that property. A call that finds a descriptor for its key and returns has removed it,
  leaving none for the key and one entry fewer; a call after which the table is longer
  found no descriptor for its key and appended exactly its own.
\<close>

theorem at_most_one_descriptor_per_key:
  "no_dup (pgas_send_info_map (state_of (run chk init_state cs))) \<and>
   (no_dup (pgas_send_info_map st) \<longrightarrow>
      no_dup (pgas_send_info_map (state_of (Send chk st src dst nb sn sig_ev done_ev counter)))) \<and>
   (no_dup (pgas_send_info_map st) \<and> has_entry (where_rank dst) sn (pgas_send_info_map st) \<and>
      Send chk st src dst nb sn sig_ev done_ev counter = Inr st' \<longrightarrow>
      Suc (length (pgas_send_info_map st')) = length (pgas_send_info_map st) \<and>
      \<not> has_entry (where_rank dst) sn (pgas_send_info_map st')) \<and>
   (Send chk st src dst nb sn sig_ev done_ev counter = Inr st' \<and>
      length (pgas_send_info_map st) < length (pgas_send_info_map st') \<longrightarrow>
      \<not> has_entry (where_rank dst) sn (pgas_send_info_map st) \<and>
      pgas_send_info_map st' = pgas_send_info_map st @
        [(where_rank dst, \<lparr>src_ptr = src, dst_ptr = dst, nbytes = nb, SeqNum = sn,
           signal_event = sig_ev, done_event = done_ev, send_counter = counter\<rparr>)])"
proof (intro conjI impI)
  show "no_dup (pgas_send_info_map (state_of (run chk init_state cs)))"
    by (rule run_no_dup) (simp add: init_state_def base_def no_dup_def)
next
  assume "no_dup (pgas_send_info_map st)"
  then show "no_dup (pgas_send_info_map
      (state_of (Send chk st src dst nb sn sig_ev done_ev counter)))"
    by (rule Send_no_dup)
next
  assume a: "no_dup (pgas_send_info_map st) \<and>
      has_entry (where_rank dst) sn (pgas_send_info_map st) \<and>
      Send chk st src dst nb sn sig_ev done_ev counter = Inr st'"
  then obtain i where i: "find_SeqNum (where_rank dst) sn (pgas_send_info_map st) = Some i"
    using find_SeqNum_None_iff [of "where_rank dst" sn "pgas_send_info_map st"] by auto
  note f = find_SeqNum_Some [OF i]
  from a have s: "Send chk st src dst nb sn sig_ev done_ev counter = Inr st'" by simp
  note t = Send_Inr_match [OF i s]
  show "Suc (length (pgas_send_info_map st')) = length (pgas_send_info_map st)"
    using f by (simp add: t length_erase)
  show "\<not> has_entry (where_rank dst) sn (pgas_send_info_map st')"
    using erase_removes_key [of "pgas_send_info_map st" i] a f by (simp add: t)
next
  assume a: "Send chk st src dst nb sn sig_ev done_ev counter = Inr st' \<and>
      length (pgas_send_info_map st) < length (pgas_send_info_map st')"
  show miss: "\<not> has_entry (where_rank dst) sn (pgas_send_info_map st)"
    using a by (intro Send_grows_only_without_match [of chk st src dst nb sn sig_ev done_ev counter st'])
      simp_all
  show "pgas_send_info_map st' = pgas_send_info_map st @
        [(where_rank dst, \<lparr>src_ptr = src, dst_ptr = dst, nbytes = nb, SeqNum = sn,
           signal_event = sig_ev, done_event = done_ev, send_counter = counter\<rparr>)]"
    using a Send_store [OF miss, of chk src nb sig_ev done_ev counter] by auto
qed

theorem at_most_one_descriptor_per_key_witness:
  "no_dup (pgas_send_info_map (state_of (run check init_state
      [dest_half buf_D 1024 7, dest_half buf_E 512 8]))) \<and>
   no_dup (pgas_send_info_map pending_A) \<and>
   has_entry (where_rank (null_on 3)) 7 (pgas_send_info_map pending_A) \<and>
   Send check pending_A buf_S (null_on 3) 1024 7 NULL send_event counter_C = Inr fired_A \<and>
   no_dup (pgas_send_info_map fired_A) \<and>
   Suc (length (pgas_send_info_map fired_A)) = length (pgas_send_info_map pending_A) \<and>
   \<not> has_entry (where_rank (null_on 3)) 7 (pgas_send_info_map fired_A) \<and>
   Send check init_state (null_on 0) buf_D 1024 7 recv_event NULL NULL = Inr pending_A \<and>
   length (pgas_send_info_map init_state) < length (pgas_send_info_map pending_A) \<and>
   \<not> has_entry (where_rank buf_D) 7 (pgas_send_info_map init_state)"
proof -
  have fire: "no_dup (pgas_send_info_map pending_A) \<and>
      has_entry (where_rank (null_on 3)) 7 (pgas_send_info_map pending_A) \<and>
      Send check pending_A buf_S (null_on 3) 1024 7 NULL send_event counter_C = Inr fired_A"
    by (simp add: pending_A_def fired_A_def no_dup_def Send_def fire_def Let_def scenario_defs)
  have store: "Send check init_state (null_on 0) buf_D 1024 7 recv_event NULL NULL =
        Inr pending_A \<and>
      length (pgas_send_info_map init_state) < length (pgas_send_info_map pending_A)"
    by (simp add: pending_A_def Send_def Let_def init_state_def base_def buf_D_def)
  note a = at_most_one_descriptor_per_key [where chk = check and st = pending_A
      and src = buf_S and dst = "null_on 3" and nb = 1024 and sn = 7 and sig_ev = NULL
      and done_ev = send_event and counter = counter_C and st' = fired_A
      and cs = "[dest_half buf_D 1024 7, dest_half buf_E 512 8]"]
  note b = at_most_one_descriptor_per_key [where chk = check and st = init_state
      and src = "null_on 0" and dst = buf_D and nb = 1024 and sn = 7 and sig_ev = recv_event
      and done_ev = NULL and counter = NULL and st' = pending_A and cs = "[]"]
  have "no_dup (pgas_send_info_map (state_of (run check init_state
      [dest_half buf_D 1024 7, dest_half buf_E 512 8])))"
    using a by blast
  moreover have "no_dup (pgas_send_info_map fired_A)"
    using a fire by force
  moreover have "Suc (length (pgas_send_info_map fired_A)) = length (pgas_send_info_map pending_A) \<and>
      \<not> has_entry (where_rank (null_on 3)) 7 (pgas_send_info_map fired_A)"
    using a fire by blast
  moreover have "\<not> has_entry (where_rank buf_D) 7 (pgas_send_info_map init_state)"
    using b store by blast
  ultimately show ?thesis
    using fire store by blast
qed

text \<open>
  C9. Two transfers to the same peer with different tags, each announced by a
  destination half and a source half of one byteLength, to a table that holds no
  descriptor for either key. The loop never matches an arriving half of the first tag
  with a stored descriptor of the second. In every interleaving of the two pairs, each
  pair in either order, all four calls return, the two copies issued are the one of the
  first pair and the one of the second (each from its own source to its own destination
  with its own byteLength and events), each source half's counter is incremented once
  (twice when both name the same counter), and the table is as it was, with no descriptor
  for either key.
\<close>

theorem tags_do_not_interfere:
  assumes "Ta \<noteq> Tb"
    and "\<not> has_entry p Ta (pgas_send_info_map st)" "\<not> has_entry p Tb (pgas_send_info_map st)"
    and "is_dest_half p Ta na da" "is_source_half p Ta na sa" "chk (completed da sa)"
    and "is_dest_half p Tb nb db" "is_source_half p Tb nb sb" "chk (completed db sb)"
    and "ha = [da, sa] \<or> ha = [sa, da]" "hb = [db, sb] \<or> hb = [sb, db]"
    and "cs \<in> shuffles ha hb"
  shows "(find_SeqNum k Ta tbl = Some i \<longrightarrow> SeqNum (snd (tbl ! i)) \<noteq> Tb) \<and>
     (\<exists>st'. run chk st cs = Inr st' \<and>
        pgas_send_info_map st' = pgas_send_info_map st \<and>
        \<not> has_entry p Ta (pgas_send_info_map st') \<and>
        \<not> has_entry p Tb (pgas_send_info_map st') \<and>
        (issued_copies (trace st') =
           issued_copies (trace st) @ [fired_copy da sa, fired_copy db sb] \<or>
         issued_copies (trace st') =
           issued_copies (trace st) @ [fired_copy db sb, fired_copy da sa]) \<and>
        (\<forall>a. memory st' a =
           memory st a + (if a = arg_send_counter sa then 1 else 0)
                       + (if a = arg_send_counter sb then 1 else 0)))"
proof
  show "find_SeqNum k Ta tbl = Some i \<longrightarrow> SeqNum (snd (tbl ! i)) \<noteq> Tb"
    using find_SeqNum_Some [of k Ta tbl i] assms(1) by auto
next
  from interleaved [where chk = chk, OF assms]
  obtain st' where "run chk st cs = Inr st'"
    "pgas_send_info_map st' = pgas_send_info_map st"
    "issued_copies (trace st') =
        issued_copies (trace st) @ [fired_copy da sa, fired_copy db sb] \<or>
      issued_copies (trace st') =
        issued_copies (trace st) @ [fired_copy db sb, fired_copy da sa]"
    "\<forall>a. memory st' a =
        memory st a + (if a = arg_send_counter sa then 1 else 0)
                    + (if a = arg_send_counter sb then 1 else 0)"
    by blast
  with assms(2,3) show "\<exists>st'. run chk st cs = Inr st' \<and>
        pgas_send_info_map st' = pgas_send_info_map st \<and>
        \<not> has_entry p Ta (pgas_send_info_map st') \<and>
        \<not> has_entry p Tb (pgas_send_info_map st') \<and>
        (issued_copies (trace st') =
           issued_copies (trace st) @ [fired_copy da sa, fired_copy db sb] \<or>
         issued_copies (trace st') =
           issued_copies (trace st) @ [fired_copy db sb, fired_copy da sa]) \<and>
        (\<forall>a. memory st' a =
           memory st a + (if a = arg_send_counter sa then 1 else 0)
                       + (if a = arg_send_counter sb then 1 else 0))"
    by auto
qed

text \<open>Scenario C of the spec: tags 7 and 8 to peer 3, in the order dest-7, dest-8, src-8, src-7;
  both source halves name the same counter.\<close>

theorem tags_do_not_interfere_witness:
  "find_SeqNum 3 7 (pgas_send_info_map pending_A) = Some 0 \<and>
   SeqNum (snd (pgas_send_info_map pending_A ! 0)) \<noteq> 8 \<and>
   (\<exists>st'. run check init_state
        [dest_half buf_D 1024 7, dest_half buf_E 512 8,
         source_half buf_T 3 512 8, source_half buf_S 3 1024 7] = Inr st' \<and>
      pgas_send_info_map st' = [] \<and>
      (issued_copies (trace st') =
         [AsyncCopyAndSignal buf_S buf_D 1024 recv_event send_event,
          AsyncCopyAndSignal buf_T buf_E 512 recv_event send_event] \<or>
       issued_copies (trace st') =
         [AsyncCopyAndSignal buf_T buf_E 512 recv_event send_event,
          AsyncCopyAndSignal buf_S buf_D 1024 recv_event send_event]) \<and>
      memory st' counter_C = 2)"
proof -
  let ?da = "dest_half buf_D 1024 7" and ?sa = "source_half buf_S 3 1024 7"
  let ?db = "dest_half buf_E 512 8" and ?sb = "source_half buf_T 3 512 8"
  have tags: "(7 :: cint) \<noteq> 8" by simp
  have miss: "\<not> has_entry 3 7 (pgas_send_info_map init_state)"
    "\<not> has_entry 3 8 (pgas_send_info_map init_state)"
    by (simp_all add: scenario_defs)
  have a: "is_dest_half 3 7 1024 ?da" "is_source_half 3 7 1024 ?sa" "check (completed ?da ?sa)"
    by (simp_all add: is_dest_half_def is_source_half_def completed_def dest_half_def
        source_half_def scenario_defs)
  have b: "is_dest_half 3 8 512 ?db" "is_source_half 3 8 512 ?sb" "check (completed ?db ?sb)"
    by (simp_all add: is_dest_half_def is_source_half_def completed_def dest_half_def
        source_half_def buf_E_def buf_T_def scenario_defs)
  have h: "[?da, ?sa] = [?da, ?sa] \<or> [?da, ?sa] = [?sa, ?da]"
    "[?db, ?sb] = [?db, ?sb] \<or> [?db, ?sb] = [?sb, ?db]"
    by simp_all
  have sh: "[?da, ?db, ?sb, ?sa] \<in> shuffles [?da, ?sa] [?db, ?sb]"
    by (simp add: Cons_in_shuffles_iff)
  have found: "find_SeqNum 3 7 (pgas_send_info_map pending_A) = Some 0"
    by (simp add: pending_A_def)
  note t = tags_do_not_interfere [where chk = check and k = 3
      and tbl = "pgas_send_info_map pending_A" and i = 0,
      OF tags miss a b h sh]
  from t found have first: "SeqNum (snd (pgas_send_info_map pending_A ! 0)) \<noteq> 8"
    by blast
  from t obtain st' where r: "run check init_state [?da, ?db, ?sb, ?sa] = Inr st'"
    and tb: "pgas_send_info_map st' = pgas_send_info_map init_state"
    and cp: "issued_copies (trace st') =
           issued_copies (trace init_state) @ [fired_copy ?da ?sa, fired_copy ?db ?sb] \<or>
         issued_copies (trace st') =
           issued_copies (trace init_state) @ [fired_copy ?db ?sb, fired_copy ?da ?sa]"
    and mem: "\<forall>a. memory st' a =
           memory init_state a + (if a = arg_send_counter ?sa then 1 else 0)
                       + (if a = arg_send_counter ?sb then 1 else 0)"
    by blast
  have "pgas_send_info_map st' = []"
    using tb by (simp add: init_state_def base_def)
  moreover have "memory st' counter_C = 2"
    using mem [rule_format, of counter_C]
    by (simp add: init_state_def base_def source_half_def)
  moreover have "issued_copies (trace st') =
         [AsyncCopyAndSignal buf_S buf_D 1024 recv_event send_event,
          AsyncCopyAndSignal buf_T buf_E 512 recv_event send_event] \<or>
       issued_copies (trace st') =
         [AsyncCopyAndSignal buf_T buf_E 512 recv_event send_event,
          AsyncCopyAndSignal buf_S buf_D 1024 recv_event send_event]"
    using cp by (simp add: init_state_def base_def fired_copy_def dest_half_def source_half_def)
  ultimately show ?thesis
    using found first r by blast
qed

text \<open>
  C10. The key of the table is the rank of the destination address of the call, in either
  role. Every descriptor in a table built by calls from the empty table is stored under
  the rank of its own destination address, whether the last call returned or aborted, and
  any call keeps that property. A call stores a new descriptor, under \<open>where_rank dst\<close>,
  exactly when no descriptor with that rank as key and the call's sequence number is in
  the table; the rank of the source address plays no part in either. Consequently the
  descriptor that a call matches has a destination address of the same rank as the
  call's, and the same sequence number.
\<close>

theorem table_key_is_rank_of_destination:
  "keyed_by_dst (pgas_send_info_map (state_of (run chk init_state cs))) \<and>
   (keyed_by_dst (pgas_send_info_map st) \<longrightarrow>
      keyed_by_dst
        (pgas_send_info_map (state_of (Send chk st src dst nb sn sig_ev done_ev counter)))) \<and>
   ((\<exists>st'. Send chk st src dst nb sn sig_ev done_ev counter = Inr st' \<and>
        pgas_send_info_map st' = pgas_send_info_map st @
          [(where_rank dst, \<lparr>src_ptr = src, dst_ptr = dst, nbytes = nb, SeqNum = sn,
             signal_event = sig_ev, done_event = done_ev, send_counter = counter\<rparr>)]) \<longleftrightarrow>
      \<not> has_entry (where_rank dst) sn (pgas_send_info_map st)) \<and>
   (keyed_by_dst (pgas_send_info_map st) \<and>
      find_SeqNum (where_rank dst) sn (pgas_send_info_map st) = Some i \<longrightarrow>
      fst (pgas_send_info_map st ! i) = where_rank dst \<and>
      where_rank (dst_ptr (snd (pgas_send_info_map st ! i))) = where_rank dst \<and>
      SeqNum (snd (pgas_send_info_map st ! i)) = sn)"
proof (intro conjI impI)
  show "keyed_by_dst (pgas_send_info_map (state_of (run chk init_state cs)))"
    by (rule run_keyed) (simp add: init_state_def base_def keyed_by_dst_def)
next
  assume "keyed_by_dst (pgas_send_info_map st)"
  then show "keyed_by_dst
      (pgas_send_info_map (state_of (Send chk st src dst nb sn sig_ev done_ev counter)))"
    by (rule Send_keyed)
next
  show "(\<exists>st'. Send chk st src dst nb sn sig_ev done_ev counter = Inr st' \<and>
        pgas_send_info_map st' = pgas_send_info_map st @
          [(where_rank dst, \<lparr>src_ptr = src, dst_ptr = dst, nbytes = nb, SeqNum = sn,
             signal_event = sig_ev, done_event = done_ev, send_counter = counter\<rparr>)]) \<longleftrightarrow>
      \<not> has_entry (where_rank dst) sn (pgas_send_info_map st)"
  proof
    assume "\<exists>st'. Send chk st src dst nb sn sig_ev done_ev counter = Inr st' \<and>
        pgas_send_info_map st' = pgas_send_info_map st @
          [(where_rank dst, \<lparr>src_ptr = src, dst_ptr = dst, nbytes = nb, SeqNum = sn,
             signal_event = sig_ev, done_event = done_ev, send_counter = counter\<rparr>)]"
    then obtain st' where "Send chk st src dst nb sn sig_ev done_ev counter = Inr st'"
      and "length (pgas_send_info_map st) < length (pgas_send_info_map st')"
      by auto
    then show "\<not> has_entry (where_rank dst) sn (pgas_send_info_map st)"
      by (rule Send_grows_only_without_match)
  next
    assume "\<not> has_entry (where_rank dst) sn (pgas_send_info_map st)"
    then show "\<exists>st'. Send chk st src dst nb sn sig_ev done_ev counter = Inr st' \<and>
        pgas_send_info_map st' = pgas_send_info_map st @
          [(where_rank dst, \<lparr>src_ptr = src, dst_ptr = dst, nbytes = nb, SeqNum = sn,
             signal_event = sig_ev, done_event = done_ev, send_counter = counter\<rparr>)]"
      by (simp add: Send_store)
  qed
next
  assume a: "keyed_by_dst (pgas_send_info_map st) \<and>
      find_SeqNum (where_rank dst) sn (pgas_send_info_map st) = Some i"
  then have f: "i < length (pgas_send_info_map st) \<and>
      fst (pgas_send_info_map st ! i) = where_rank dst \<and>
      SeqNum (snd (pgas_send_info_map st ! i)) = sn"
    using find_SeqNum_Some by blast
  then show "fst (pgas_send_info_map st ! i) = where_rank dst"
    and "SeqNum (snd (pgas_send_info_map st ! i)) = sn"
    by simp_all
  show "where_rank (dst_ptr (snd (pgas_send_info_map st ! i))) = where_rank dst"
    using a f by (auto simp add: keyed_by_dst_def list_all_length)
qed

text \<open>
  Scenario A again: the source half comes from a buffer on rank 0 and finds the
  descriptor stored under rank 3, the rank of both destination addresses.
\<close>

theorem table_key_is_rank_of_destination_witness:
  "keyed_by_dst (pgas_send_info_map (state_of (run check init_state
      [dest_half buf_D 1024 7, dest_half buf_E 512 8]))) \<and>
   keyed_by_dst (pgas_send_info_map pending_A) \<and>
   keyed_by_dst (pgas_send_info_map (state_of
      (Send check pending_A buf_S (null_on 3) 1024 7 NULL send_event counter_C))) \<and>
   find_SeqNum (where_rank (null_on 3)) 7 (pgas_send_info_map pending_A) = Some 0 \<and>
   fst (pgas_send_info_map pending_A ! 0) = where_rank (null_on 3) \<and>
   where_rank (dst_ptr (snd (pgas_send_info_map pending_A ! 0))) = where_rank (null_on 3) \<and>
   SeqNum (snd (pgas_send_info_map pending_A ! 0)) = 7 \<and>
   where_rank buf_S \<noteq> where_rank (null_on 3) \<and>
   \<not> has_entry (where_rank buf_D) 7 (pgas_send_info_map init_state) \<and>
   (\<exists>st'. Send check init_state (null_on 0) buf_D 1024 7 recv_event NULL NULL = Inr st' \<and>
      pgas_send_info_map st' = pgas_send_info_map init_state @
        [(where_rank buf_D, \<lparr>src_ptr = null_on 0, dst_ptr = buf_D, nbytes = 1024, SeqNum = 7,
           signal_event = recv_event, done_event = NULL, send_counter = NULL\<rparr>)])"
proof -
  have keyed: "keyed_by_dst (pgas_send_info_map pending_A)"
    by (simp add: pending_A_def keyed_by_dst_def buf_D_def)
  have found: "find_SeqNum (where_rank (null_on 3)) 7 (pgas_send_info_map pending_A) = Some 0"
    by (simp add: pending_A_def null_on_def)
  have ranks: "where_rank buf_S \<noteq> where_rank (null_on 3)"
    by (simp add: buf_S_def null_on_def)
  have miss: "\<not> has_entry (where_rank buf_D) 7 (pgas_send_info_map init_state)"
    by (simp add: scenario_defs)
  note a = table_key_is_rank_of_destination [where chk = check and st = pending_A
      and src = buf_S and dst = "null_on 3" and nb = 1024 and sn = 7 and sig_ev = NULL
      and done_ev = send_event and counter = counter_C and i = 0
      and cs = "[dest_half buf_D 1024 7, dest_half buf_E 512 8]"]
  note b = table_key_is_rank_of_destination [where chk = check and st = init_state
      and src = "null_on 0" and dst = buf_D and nb = 1024 and sn = 7 and sig_ev = recv_event
      and done_ev = NULL and counter = NULL and i = 0 and cs = "[]"]
  have "keyed_by_dst (pgas_send_info_map (state_of (run check init_state
      [dest_half buf_D 1024 7, dest_half buf_E 512 8])))"
    using a by blast
  moreover have "keyed_by_dst (pgas_send_info_map (state_of
      (Send check pending_A buf_S (null_on 3) 1024 7 NULL send_event counter_C)))"
    using a keyed by blast
  moreover have "fst (pgas_send_info_map pending_A ! 0) = where_rank (null_on 3) \<and>
      where_rank (dst_ptr (snd (pgas_send_info_map pending_A ! 0))) = where_rank (null_on 3) \<and>
      SeqNum (snd (pgas_send_info_map pending_A ! 0)) = 7"
    using a keyed found by blast
  moreover have "\<exists>st'. Send check init_state (null_on 0) buf_D 1024 7 recv_event NULL NULL = Inr st' \<and>
      pgas_send_info_map st' = pgas_send_info_map init_state @
        [(where_rank buf_D, \<lparr>src_ptr = null_on 0, dst_ptr = buf_D, nbytes = 1024, SeqNum = 7,
           signal_event = recv_event, done_event = NULL, send_counter = NULL\<rparr>)]"
    using b miss by blast
  ultimately show ?thesis
    using keyed found ranks miss by blast
qed

end
